theory Spec2Isabelle
  imports Main "HOL-Library.Multiset"
begin

section \<open>Data model (Program.h)\<close>

text \<open>
  The enumeration \<^verbatim>\<open>State\<close> of Program.h, in declaration order.
\<close>

datatype State = START | READY | RUNNING | EXIT

text \<open>
  Modelled from the spec: the declaration of \<^verbatim>\<open>Operation\<close> that simulator.cpp is compiled
  against (with the fields \<^verbatim>\<open>cycles\<close> and \<^verbatim>\<open>cycleTime\<close> that \<^verbatim>\<open>load_meta_data\<close> and
  \<^verbatim>\<open>set_operation_cycle_time\<close> assign) is not among the sources. The spec's data model gives
  an Operation a kind, a description, a cycle count and a cycle time, and says
  "Derived duration = cycles * cycleTime": \<open>duration\<close> is therefore a function of the two
  stored numbers. (The \<^verbatim>\<open>Operation\<close> of Program.h has a stored member \<^verbatim>\<open>duration\<close> and
  neither of the two; simulator.cpp reads \<^verbatim>\<open>operation.duration\<close> and never assigns it.)

  C++ \<^verbatim>\<open>int\<close> is 32 bits wide. The values are modelled as \<open>int\<close>, and the arithmetic
  that can leave the range, the product for the duration and the sum in
  \<^verbatim>\<open>running_time += operation.duration\<close>, wraps around as the compiled code does
  (\<open>wrap_int\<close>); the C++ standard leaves signed overflow undefined.
\<close>

definition wrap_int :: "int \<Rightarrow> int" where
  "wrap_int x = (x + 2147483648) mod 4294967296 - 2147483648"

record Operation =
  type :: char
  description :: string
  cycles :: int
  cycleTime :: int

definition duration :: "Operation \<Rightarrow> int" where
  "duration operation = wrap_int (cycles operation * cycleTime operation)"

text \<open>
  Class \<^verbatim>\<open>Program\<close>: the queue of operations (front of the queue first) and the three
  members with their default initialisers.
\<close>

record Program =
  operations :: "Operation list"
  state :: State
  running_time :: int
  id :: int

definition new_Program :: Program where
  "new_Program = \<lparr>operations = [], state = START, running_time = 0, id = 0\<rparr>"

text \<open>
  \<^verbatim>\<open>Program::add_operation\<close> (Program.cpp): push to the back, add the duration to the
  32-bit total.
\<close>

definition add_operation :: "Program \<Rightarrow> Operation \<Rightarrow> Program" where
  "add_operation p operation =
     p\<lparr>operations := operations p @ [operation],
       running_time := wrap_int (running_time p + duration operation)\<rparr>"

text \<open>
  \<^verbatim>\<open>Program::operator<\<close> as Program.cpp defines it: programs compare by \<^verbatim>\<open>running_time\<close>.
  (Program.h declares the comparison the other way round, \<^verbatim>\<open>operator>\<close>, without a body.)
\<close>

definition program_less :: "Program \<Rightarrow> Program \<Rightarrow> bool" where
  "program_less p other = (running_time p < running_time other)"

text \<open>
  What a C++ call can end with instead of a value: the \<^verbatim>\<open>std::runtime_error\<close> thrown by the
  simulator with its message, the two exceptions of the standard library that the parsing
  calls throw, and undefined behaviour (reading the front of an empty container).
\<close>

datatype exn =
    runtime_error string
  | invalid_argument
  | out_of_range
  | undefined_behaviour

text \<open>
  Modelled from the spec: \<^verbatim>\<open>Program::done\<close>, \<^verbatim>\<open>Program::next\<close> and
  \<^verbatim>\<open>Program::remaining_operations\<close> are called by simulator.cpp but their definitions are not
  among the sources. The spec says a Program is finished when "\<^verbatim>\<open>operations\<close> empty", that
  operations are consumed first-in-first-out, and that the executor acts "when exactly one
  Operation remains in a Program's queue". Taking the front of an empty \<^verbatim>\<open>std::queue\<close> is
  undefined, which the model reports as a value.
\<close>

definition program_done :: "Program \<Rightarrow> bool" where
  "program_done p = (operations p = [])"

definition remaining_operations :: "Program \<Rightarrow> int" where
  "remaining_operations p = int (length (operations p))"

definition program_next :: "Program \<Rightarrow> exn + (Operation \<times> Program)" where
  "program_next p =
     (case operations p of
        [] \<Rightarrow> Inl undefined_behaviour
      | operation # rest \<Rightarrow> Inr (operation, p\<lparr>operations := rest\<rparr>))"

section \<open>The simulator (simulator.cpp)\<close>

text \<open>
  The members of \<^verbatim>\<open>Simulator\<close> that the scheduling and loading code reads or writes. The
  last field stands for the log sinks: every call of \<^verbatim>\<open>print\<close> appends its message there.
  The elapsed-time prefix of a line and the choice between screen and file are not
  modelled, and \<^verbatim>\<open>sleep_for\<close> has no effect on this state. Member names are the source's
  without their trailing underscore.
\<close>

record Simulator =
  schedulingCode :: string
  processorCycleTime :: int
  monitorDisplayTime :: int
  hardDriveCycleTime :: int
  printerCycleTime :: int
  keyboardCycleTime :: int
  programs :: "Program list"
  SRTF_queue :: "Program list"
  printed :: "string list"

definition print :: "Simulator \<Rightarrow> string \<Rightarrow> Simulator" where
  "print s message = s\<lparr>printed := printed s @ [message]\<rparr>"

text \<open>\<^verbatim>\<open>std::to_string\<close> on an \<^verbatim>\<open>int\<close>: decimal digits, a minus sign when negative.\<close>

fun digits :: "nat \<Rightarrow> string" where
  "digits n =
     (if n < 10 then [''0123456789'' ! n]
      else digits (n div 10) @ [''0123456789'' ! (n mod 10)])"

declare digits.simps [simp del]

definition to_string :: "int \<Rightarrow> string" where
  "to_string i = (if i < 0 then CHR ''-'' # digits (nat (- i)) else digits (nat i))"

subsection \<open>Timing resolver\<close>

text \<open>
  \<^verbatim>\<open>Simulator::set_operation_cycle_time\<close>. The operation is passed by reference: a branch
  that assigns nothing returns it as it came in.
\<close>

definition set_operation_cycle_time :: "Simulator \<Rightarrow> Operation \<Rightarrow> exn + Operation" where
  "set_operation_cycle_time s operation =
     (if type operation = CHR ''P'' then
        Inr (operation\<lparr>cycleTime := processorCycleTime s\<rparr>)
      else if type operation = CHR ''I'' \<or> type operation = CHR ''O'' then
        (if description operation = ''hard drive'' then
           Inr (operation\<lparr>cycleTime := hardDriveCycleTime s\<rparr>)
         else if description operation = ''keyboard'' then
           Inr (operation\<lparr>cycleTime := keyboardCycleTime s\<rparr>)
         else if description operation = ''monitor'' then
           Inr (operation\<lparr>cycleTime := monitorDisplayTime s\<rparr>)
         else if description operation = ''printer'' then
           Inr (operation\<lparr>cycleTime := printerCycleTime s\<rparr>)
         else Inr operation)
      else if type operation = CHR ''A'' \<or> type operation = CHR ''S'' then
        Inr (operation\<lparr>cycleTime := 0\<rparr>)
      else Inl (runtime_error ''Error: Unrecognized operation type,         check meta-data file''))"

subsection \<open>Operation executor\<close>

text \<open>
  \<^verbatim>\<open>Simulator::process_IO\<close>: two log lines around the delay for the four known devices,
  nothing for any other description.
\<close>

definition process_IO :: "Simulator \<Rightarrow> Operation \<Rightarrow> int \<Rightarrow> Simulator" where
  "process_IO s operation programID =
     (if description operation = ''hard drive'' then
        (let accessType = (if type operation = CHR ''I'' then ''input'' else ''output'')
         in print
              (print s (''Process '' @ to_string programID @ '': start hard drive '' @ accessType))
              (''Process '' @ to_string programID @ '': end hard drive '' @ accessType))
      else if description operation = ''keyboard'' then
        print (print s (''Process '' @ to_string programID @ '': start keyboard input''))
          (''Process '' @ to_string programID @ '': end keyboard input'')
      else if description operation = ''monitor'' then
        print (print s (''Process '' @ to_string programID @ '': start monitor output''))
          (''Process '' @ to_string programID @ '': end monitor output'')
      else if description operation = ''printer'' then
        print (print s (''Process '' @ to_string programID @ '': start printer output''))
          (''Process '' @ to_string programID @ '': end printer output'')
      else s)"

text \<open>
  \<^verbatim>\<open>Simulator::process_operation\<close>, in three parts that follow the three parts of its body.
  First the operation is taken from the queue; when it is the start bracket the process is
  announced and a second operation is taken.
\<close>

definition fetch_operation :: "Simulator \<Rightarrow> Program \<Rightarrow> exn + (Simulator \<times> Operation \<times> Program)" where
  "fetch_operation s program =
     (case program_next program of
        Inl e \<Rightarrow> Inl e
      | Inr (operation, program1) \<Rightarrow>
          if type operation = CHR ''A'' \<and> description operation = ''start'' then
            (case program_next program1 of
               Inl e \<Rightarrow> Inl e
             | Inr (operation2, program2) \<Rightarrow>
                 Inr (print s (''OS: starting process '' @ to_string (id program)),
                      operation2, program2))
          else Inr (s, operation, program1))"

text \<open>
  Then the operation is carried out: a processing operation on the calling thread, an
  input or output operation on a thread that is joined at once.
\<close>

definition execute_operation :: "Simulator \<Rightarrow> Operation \<Rightarrow> int \<Rightarrow> Simulator" where
  "execute_operation s operation programID =
     (if type operation = CHR ''P'' then
        print (print s (''Process '' @ to_string programID @ '': start processing action''))
          (''Process '' @ to_string programID @ '': end processing action'')
      else if type operation = CHR ''I'' \<or> type operation = CHR ''O'' then
        process_IO s operation programID
      else s)"

text \<open>
  Last, when exactly one operation is left it is taken off the queue and the removal of
  the process is announced.
\<close>

definition process_operation :: "Simulator \<Rightarrow> Program \<Rightarrow> exn + (Simulator \<times> Program)" where
  "process_operation s program =
     (case fetch_operation s program of
        Inl e \<Rightarrow> Inl e
      | Inr (s1, operation, program1) \<Rightarrow>
          (let s2 = execute_operation s1 operation (id program) in
           if remaining_operations program1 = 1 then
             (case program_next program1 of
                Inl e \<Rightarrow> Inl e
              | Inr (last_operation, program2) \<Rightarrow>
                  Inr (print s2 (''OS: removing process '' @ to_string (id program)), program2))
           else Inr (s2, program1)))"

text \<open>
  What the executor leaves alone: it only appends to the log, and it only takes operations
  off the front of the program's queue.
\<close>

lemma print_frame: "(print s m)\<lparr>printed := []\<rparr> = s\<lparr>printed := []\<rparr>"
  by (simp add: print_def)

lemma process_IO_frame: "(process_IO s operation n)\<lparr>printed := []\<rparr> = s\<lparr>printed := []\<rparr>"
  by (simp add: process_IO_def Let_def print_frame)

lemma execute_operation_frame:
  "(execute_operation s operation n)\<lparr>printed := []\<rparr> = s\<lparr>printed := []\<rparr>"
  by (simp add: execute_operation_def print_frame process_IO_frame)

lemma fetch_operation_frame:
  "fetch_operation s p = Inr (s', operation, p') \<Longrightarrow> s'\<lparr>printed := []\<rparr> = s\<lparr>printed := []\<rparr>"
  by (auto simp: fetch_operation_def print_frame split: sum.splits if_splits)

lemma process_operation_frame:
  assumes "process_operation s p = Inr (s', p')"
  shows "s'\<lparr>printed := []\<rparr> = s\<lparr>printed := []\<rparr>"
proof -
  from assms obtain s1 operation p1 where f: "fetch_operation s p = Inr (s1, operation, p1)"
    by (auto simp: process_operation_def split: sum.splits)
  have "s'\<lparr>printed := []\<rparr> = (execute_operation s1 operation (id p))\<lparr>printed := []\<rparr>"
    using assms f by (auto simp: process_operation_def Let_def print_frame split: sum.splits if_splits)
  then show ?thesis
    using fetch_operation_frame [OF f] by (simp add: execute_operation_frame)
qed

lemma frame_SRTF_queue:
  "s'\<lparr>printed := []\<rparr> = s\<lparr>printed := []\<rparr> \<Longrightarrow> SRTF_queue s' = SRTF_queue s"
  by (metis Simulator.select_convs(8) Simulator.surjective Simulator.update_convs(9))

lemma frame_programs:
  "s'\<lparr>printed := []\<rparr> = s\<lparr>printed := []\<rparr> \<Longrightarrow> programs s' = programs s"
  by (metis Simulator.select_convs(7) Simulator.surjective Simulator.update_convs(9))

lemma program_next_frame:
  "program_next p = Inr (operation, p') \<Longrightarrow> p'\<lparr>operations := []\<rparr> = p\<lparr>operations := []\<rparr>"
  by (auto simp: program_next_def split: list.splits)

lemma fetch_operation_program_frame:
  "fetch_operation s p = Inr (s', operation, p') \<Longrightarrow> p'\<lparr>operations := []\<rparr> = p\<lparr>operations := []\<rparr>"
  by (auto simp: fetch_operation_def split: sum.splits if_splits dest!: program_next_frame)

lemma process_operation_program_frame:
  assumes "process_operation s p = Inr (s', p')"
  shows "p'\<lparr>operations := []\<rparr> = p\<lparr>operations := []\<rparr>"
proof -
  from assms obtain s1 operation p1 where f: "fetch_operation s p = Inr (s1, operation, p1)"
    by (auto simp: process_operation_def split: sum.splits)
  have "p'\<lparr>operations := []\<rparr> = p1\<lparr>operations := []\<rparr>"
    using assms f by (auto simp: process_operation_def Let_def split: sum.splits if_splits dest!: program_next_frame)
  then show ?thesis
    using fetch_operation_program_frame [OF f] by simp
qed

subsection \<open>Scheduler: first in, first out\<close>

text \<open>
  The inner loop of the FIFO branch of \<^verbatim>\<open>Simulator::run\<close>:
  \<^verbatim>\<open>while( !program.done() ) process_operation( program );\<close>
  Every call that returns has taken at least one operation off the queue, which is the
  measure of the loop.
\<close>

lemma program_next_shorter:
  "program_next p = Inr (operation, p') \<Longrightarrow> length (operations p') < length (operations p)"
  by (auto simp: program_next_def split: list.splits)

lemma fetch_operation_shorter:
  "fetch_operation s p = Inr (s', operation, p') \<Longrightarrow> length (operations p') < length (operations p)"
  by (fastforce simp: fetch_operation_def split: sum.splits if_splits
        dest: program_next_shorter)

lemma process_operation_shorter:
  "process_operation s p = Inr (s', p') \<Longrightarrow> length (operations p') < length (operations p)"
  by (fastforce simp: process_operation_def Let_def split: sum.splits if_splits prod.splits
        dest: program_next_shorter fetch_operation_shorter)

function fifo_drain :: "Simulator \<Rightarrow> Program \<Rightarrow> exn + (Simulator \<times> Program)" where
  "fifo_drain s program =
     (if \<not> program_done program then
        (case process_operation s program of
           Inl e \<Rightarrow> Inl e
         | Inr (s1, program1) \<Rightarrow> fifo_drain s1 program1)
      else Inr (s, program))"
  by pat_completeness auto
termination
  by (relation "measure (\<lambda>(s, p). length (operations p))")
     (auto dest: process_operation_shorter)

declare fifo_drain.simps [simp del]

text \<open>
  The second loop of the FIFO branch, over the by-value copies of the stored programs:
  the counter is incremented, the copy gets its id and the state RUNNING, is drained, and
  gets the state EXIT before it goes out of scope. (The first loop of the branch assigns
  READY to a copy of each stored program and drops the copy; it changes nothing that is
  read afterwards.)
\<close>

fun fifo_loop :: "Simulator \<Rightarrow> int \<Rightarrow> Program list \<Rightarrow> exn + Simulator" where
  "fifo_loop s programCounter [] = Inr s"
| "fifo_loop s programCounter (program # rest) =
     (let s1 = print s ''OS: selecting next process'';
          programCounter1 = programCounter + 1;
          program1 = program\<lparr>id := programCounter1\<rparr>;
          program2 = program1\<lparr>state := RUNNING\<rparr>
      in case fifo_drain s1 program2 of
           Inl e \<Rightarrow> Inl e
         | Inr (s2, program3) \<Rightarrow>
             (let program4 = program3\<lparr>state := EXIT\<rparr>
              in fifo_loop s2 programCounter1 rest))"

subsection \<open>Scheduler: shortest remaining time first, non-preemptive\<close>

text \<open>
  Modelled from the spec: the member \<^verbatim>\<open>SRTF_queue_\<close> is declared in simulator.h, which is
  not among the sources; simulator.cpp only calls \<^verbatim>\<open>push\<close>, \<^verbatim>\<open>top\<close>, \<^verbatim>\<open>pop\<close> and
  \<^verbatim>\<open>empty\<close> on it. The spec describes it as "a priority structure ordered ascending by
  \<^verbatim>\<open>runningTime\<close> (ties broken by admission/insertion order -- stable ordering is
  required ...)". The model keeps the queue as a list with the top first; \<open>queue_push\<close>
  puts a program behind every program that does not compare greater, using the
  comparison of Program.cpp.
\<close>

fun queue_push :: "Program \<Rightarrow> Program list \<Rightarrow> Program list" where
  "queue_push p [] = [p]"
| "queue_push p (q # qs) =
     (if program_less p q then p # q # qs else q # queue_push p qs)"

text \<open>The admission loop of the SRTF branch: each copy is made READY and pushed.\<close>

fun srtf_admit :: "Simulator \<Rightarrow> Program list \<Rightarrow> Simulator" where
  "srtf_admit s [] = s"
| "srtf_admit s (program # rest) =
     srtf_admit (s\<lparr>SRTF_queue := queue_push (program\<lparr>state := READY\<rparr>) (SRTF_queue s)\<rparr>) rest"

text \<open>
  One pass through the body of the scheduling loop, for a queue whose top is \<open>top_program\<close> and
  whose other members are \<open>popped\<close>. \<open>srtf_select\<close> is the part before the call of
  \<^verbatim>\<open>process_operation\<close>: it gives the copy taken from the queue an id when the copy has
  none, and the state RUNNING. \<open>srtf_finish\<close> is the part after the call.
\<close>

definition srtf_select :: "int \<Rightarrow> Program \<Rightarrow> int \<times> Program" where
  "srtf_select programCounter program =
     (if id program = 0 then
        (programCounter + 1, program\<lparr>id := programCounter + 1, state := RUNNING\<rparr>)
      else (programCounter, program\<lparr>state := RUNNING\<rparr>))"

definition srtf_finish :: "Simulator \<Rightarrow> Program \<Rightarrow> Simulator \<times> Program" where
  "srtf_finish s program =
     (if program_done program then (s, program\<lparr>state := EXIT\<rparr>)
      else (s\<lparr>SRTF_queue := queue_push (program\<lparr>state := READY\<rparr>) (SRTF_queue s)\<rparr>,
            program\<lparr>state := READY\<rparr>))"

definition srtf_iteration :: "Simulator \<Rightarrow> int \<Rightarrow> exn + (Simulator \<times> int)" where
  "srtf_iteration s programCounter =
     (case SRTF_queue s of
        [] \<Rightarrow> Inl undefined_behaviour
      | top_program # popped \<Rightarrow>
          (let s1 = print s ''OS: selecting next process'';
               s2 = s1\<lparr>SRTF_queue := popped\<rparr>;
               (programCounter1, program) = srtf_select programCounter top_program
           in case process_operation s2 program of
                Inl e \<Rightarrow> Inl e
              | Inr (s3, program1) \<Rightarrow> Inr (fst (srtf_finish s3 program1), programCounter1)))"

text \<open>
  The scheduling loop \<^verbatim>\<open>while( !SRTF_queue_.empty() )\<close>. Its measure is the number of
  operations still queued: every pass that returns has consumed at least one.
\<close>

definition queue_work :: "Program list \<Rightarrow> nat" where
  "queue_work q = sum_list (map (\<lambda>p. length (operations p)) q)"

lemma queue_work_Nil: "queue_work [] = 0"
  by (simp add: queue_work_def)

lemma queue_work_Cons: "queue_work (p # q) = length (operations p) + queue_work q"
  by (simp add: queue_work_def)

lemma queue_work_push: "queue_work (queue_push p q) = length (operations p) + queue_work q"
  by (induction q) (simp_all add: queue_work_Cons queue_work_Nil)

lemma srtf_select_operations: "operations (snd (srtf_select c p)) = operations p"
  by (simp add: srtf_select_def)

lemma srtf_iteration_decreases:
  assumes "srtf_iteration s c = Inr (s', c')"
  shows "queue_work (SRTF_queue s') < queue_work (SRTF_queue s)"
proof -
  from assms obtain top_program popped where q: "SRTF_queue s = top_program # popped"
    by (auto simp: srtf_iteration_def split: list.splits)
  define s2 where "s2 = (print s ''OS: selecting next process'')\<lparr>SRTF_queue := popped\<rparr>"
  define program where "program = snd (srtf_select c top_program)"
  from assms q obtain s3 program1 where
    po: "process_operation s2 program = Inr (s3, program1)" and
    s': "s' = fst (srtf_finish s3 program1)"
    by (auto simp: srtf_iteration_def Let_def s2_def program_def split: sum.splits prod.splits)
  have "SRTF_queue s3 = popped"
    using frame_SRTF_queue [OF process_operation_frame [OF po]] by (simp add: s2_def)
  moreover have "length (operations program1) < length (operations top_program)"
    using process_operation_shorter [OF po] by (simp add: program_def srtf_select_operations)
  ultimately show ?thesis
    by (cases "operations top_program")
       (auto simp: s' q srtf_finish_def queue_work_push queue_work_Cons)
qed

function srtf_loop :: "Simulator \<Rightarrow> int \<Rightarrow> exn + Simulator" where
  "srtf_loop s programCounter =
     (if SRTF_queue s \<noteq> [] then
        (case srtf_iteration s programCounter of
           Inl e \<Rightarrow> Inl e
         | Inr (s1, programCounter1) \<Rightarrow> srtf_loop s1 programCounter1)
      else Inr s)"
  by pat_completeness auto
termination
  by (relation "measure (\<lambda>(s, c). queue_work (SRTF_queue s))")
     (auto dest: srtf_iteration_decreases)

declare srtf_loop.simps [simp del]

text \<open>
  The programs in the order in which the loop takes them from the queue, each as it was
  when it was taken (so a program that has not run before has id 0). An observation on the
  loop, which itself keeps no record of it.
\<close>

function srtf_dispatches :: "Simulator \<Rightarrow> int \<Rightarrow> Program list" where
  "srtf_dispatches s programCounter =
     (case SRTF_queue s of
        [] \<Rightarrow> []
      | top_program # popped \<Rightarrow>
          top_program #
          (case srtf_iteration s programCounter of
             Inl e \<Rightarrow> []
           | Inr (s1, programCounter1) \<Rightarrow> srtf_dispatches s1 programCounter1))"
  by pat_completeness auto
termination
  by (relation "measure (\<lambda>(s, c). queue_work (SRTF_queue s))")
     (auto dest: srtf_iteration_decreases)

declare srtf_dispatches.simps [simp del]

text \<open>
  The simulator as \<^verbatim>\<open>run\<close> has it when it enters the scheduling loop of the SRTF branch:
  the two announcements are printed and every stored program is admitted.
\<close>

definition srtf_prepared :: "Simulator \<Rightarrow> Simulator" where
  "srtf_prepared s =
     (let s1 = print s ''Simulator program starting''
      in srtf_admit (print s1 ''OS: preparing all processes'') (programs s1))"

text \<open>
  The first \<open>n\<close> passes through the body of the scheduling loop. After the last pass of
  a run the queue is empty, after every earlier one it is not.
\<close>

fun srtf_passes :: "nat \<Rightarrow> Simulator \<Rightarrow> int \<Rightarrow> exn + (Simulator \<times> int)" where
  "srtf_passes 0 s programCounter = Inr (s, programCounter)"
| "srtf_passes (Suc n) s programCounter =
     (case srtf_iteration s programCounter of
        Inl e \<Rightarrow> Inl e
      | Inr (s1, programCounter1) \<Rightarrow> srtf_passes n s1 programCounter1)"

subsection \<open>The states of a program\<close>





subsection \<open>The run\<close>

text \<open>
  \<^verbatim>\<open>Simulator::run\<close>. The scheduling code was checked by \<^verbatim>\<open>load_config\<close> to be FIFO, SJF
  or SRTF-N; every code other than FIFO takes the second branch.
\<close>

definition run :: "Simulator \<Rightarrow> exn + Simulator" where
  "run s =
     (let s1 = print s ''Simulator program starting'' in
      case (if schedulingCode s1 = ''FIFO'' then
              fifo_loop (print s1 ''OS: preparing all processes'') 0 (programs s1)
            else
              srtf_loop (srtf_admit (print s1 ''OS: preparing all processes'') (programs s1)) 0)
      of Inl e \<Rightarrow> Inl e
       | Inr s2 \<Rightarrow> Inr (print s2 ''Simulator program ending''))"

section \<open>Loading the meta-data (simulator.cpp)\<close>

text \<open>
  The input file stream, as far as \<^verbatim>\<open>load_meta_data\<close> uses it: the characters not yet
  read, and whether the stream is still good (neither the end-of-file nor the fail bit
  set). The three library calls follow the C++ standard: on a stream that is not good
  they read nothing, and \<^verbatim>\<open>std::getline\<close> then leaves its string argument as it was;
  running into the end of the file sets the end-of-file bit.
\<close>

record istream =
  buffer :: string
  good :: bool

definition isspace :: "char \<Rightarrow> bool" where
  "isspace c = (c = CHR 0x20 \<or> c = CHR 0x09 \<or> c = CHR 0x0A \<or> c = CHR 0x0B \<or> c = CHR 0x0C \<or> c = CHR 0x0D)"

definition getline :: "istream \<Rightarrow> string \<Rightarrow> char \<Rightarrow> istream \<times> string" where
  "getline fin input delim =
     (if \<not> good fin then (fin, input)
      else (case dropWhile (\<lambda>c. c \<noteq> delim) (buffer fin) of
              [] \<Rightarrow> (\<lparr>buffer = [], good = False\<rparr>, buffer fin)
            | d # rest \<Rightarrow> (\<lparr>buffer = rest, good = True\<rparr>,
                          takeWhile (\<lambda>c. c \<noteq> delim) (buffer fin))))"

definition ws :: "istream \<Rightarrow> istream" where
  "ws fin =
     (if \<not> good fin then fin
      else (let rest = dropWhile isspace (buffer fin)
            in \<lparr>buffer = rest, good = (rest \<noteq> [])\<rparr>))"

definition peek :: "istream \<Rightarrow> char option \<times> istream" where
  "peek fin =
     (if \<not> good fin then (None, fin)
      else (case buffer fin of
              [] \<Rightarrow> (None, fin\<lparr>good := False\<rparr>)
            | c # rest \<Rightarrow> (Some c, fin)))"

text \<open>
  \<^verbatim>\<open>std::stoi\<close>: leading whitespace, an optional sign, then decimal digits; whatever follows
  the digits is ignored. No digit at all is \<^verbatim>\<open>std::invalid_argument\<close>, a value outside
  32-bit \<^verbatim>\<open>int\<close> is \<^verbatim>\<open>std::out_of_range\<close>.
\<close>

definition isdigit :: "char \<Rightarrow> bool" where
  "isdigit c = (c \<in> set ''0123456789'')"

definition digits_value :: "string \<Rightarrow> int" where
  "digits_value ds = foldl (\<lambda>v c. 10 * v + (of_char c - 48)) 0 ds"

definition stoi :: "string \<Rightarrow> exn + int" where
  "stoi str =
     (let str1 = dropWhile isspace str;
          negative = (str1 \<noteq> [] \<and> hd str1 = CHR ''-'');
          str2 = (if str1 \<noteq> [] \<and> (hd str1 = CHR ''-'' \<or> hd str1 = CHR ''+'') then tl str1 else str1);
          ds = takeWhile isdigit str2;
          v = (if negative then - digits_value ds else digits_value ds)
      in if ds = [] then Inl invalid_argument
         else if v < - 2147483648 \<or> 2147483647 < v then Inl out_of_range
         else Inr v)"

text \<open>
  \<^verbatim>\<open>std::string::find\<close> stored into an \<^verbatim>\<open>int\<close> (\<^verbatim>\<open>npos\<close> becomes \<open>- 1\<close>), and
  \<^verbatim>\<open>std::string::substr\<close>, whose count is unsigned: a negative argument is a count larger
  than any string.
\<close>

definition find_char :: "string \<Rightarrow> char \<Rightarrow> int" where
  "find_char str c =
     (if c \<in> set str then int (length (takeWhile (\<lambda>x. x \<noteq> c) str)) else - 1)"

definition substr :: "string \<Rightarrow> nat \<Rightarrow> int \<Rightarrow> exn + string" where
  "substr str pos len =
     (if length str < pos then Inl out_of_range
      else if len < 0 then Inr (drop pos str)
      else Inr (take (nat len) (drop pos str)))"

text \<open>
  The first half of the body of the \<^verbatim>\<open>do\<close> loop of \<^verbatim>\<open>load_meta_data\<close>: the token is cut
  into type, description and cycle count, which are stored into the variable \<^verbatim>\<open>operation\<close>
  that all iterations share, and the cycle time is resolved. \<^verbatim>\<open>front()\<close> of an empty token
  is undefined.
\<close>

definition parse_operation :: "Simulator \<Rightarrow> Operation \<Rightarrow> string \<Rightarrow> exn + Operation" where
  "parse_operation s operation input =
     (let paranthesisLocation = find_char input CHR '')'' in
      case input of
        [] \<Rightarrow> Inl undefined_behaviour
      | front # _ \<Rightarrow>
          (case substr input 2 (paranthesisLocation - 2) of
             Inl e \<Rightarrow> Inl e
           | Inr d \<Rightarrow>
               (case stoi (drop (nat (paranthesisLocation + 1)) input) of
                  Inl e \<Rightarrow> Inl e
                | Inr n \<Rightarrow>
                    set_operation_cycle_time s
                      (operation\<lparr>type := front, description := d, cycles := n\<rparr>))))"

text \<open>
  The \<^verbatim>\<open>do ... while( input != "A(end)0" )\<close> loop that reads one program, and the
  \<^verbatim>\<open>while( fin.peek() != 'S' )\<close> loop around it. Neither loop tests the state of the
  stream, so both can run forever; they are given fuel, and \<open>None\<close> is running out of it.
\<close>

fun read_program ::
  "nat \<Rightarrow> Simulator \<Rightarrow> istream \<Rightarrow> string \<Rightarrow> Operation \<Rightarrow> Program \<Rightarrow>
   (exn + (istream \<times> string \<times> Operation \<times> Program)) option" where
  "read_program 0 s fin input operation newProgram = None"
| "read_program (Suc fuel) s fin input operation newProgram =
     (let (fin1, input1) = getline fin input CHR '';'' in
      case parse_operation s operation input1 of
        Inl e \<Rightarrow> Some (Inl e)
      | Inr operation1 \<Rightarrow>
          (let newProgram1 = add_operation newProgram operation1;
               fin2 = ws fin1
           in if input1 \<noteq> ''A(end)0'' then
                read_program fuel s fin2 input1 operation1 newProgram1
              else Some (Inr (fin2, input1, operation1, newProgram1))))"

fun read_programs ::
  "nat \<Rightarrow> Simulator \<Rightarrow> istream \<Rightarrow> string \<Rightarrow> Operation \<Rightarrow>
   (exn + (Simulator \<times> istream \<times> string)) option" where
  "read_programs 0 s fin input operation = None"
| "read_programs (Suc fuel) s fin input operation =
     (case peek fin of
        (c, fin1) \<Rightarrow>
          if c \<noteq> Some CHR ''S'' then
            (case read_program fuel s fin1 input operation new_Program of
               None \<Rightarrow> None
             | Some (Inl e) \<Rightarrow> Some (Inl e)
             | Some (Inr (fin2, input1, operation1, newProgram)) \<Rightarrow>
                 read_programs fuel (s\<lparr>programs := programs s @ [newProgram]\<rparr>)
                   fin2 input1 operation1)
          else Some (Inr (s, fin1, input)))"

text \<open>
  \<^verbatim>\<open>Simulator::load_meta_data\<close>. \<open>files\<close> maps the path of each file that can be opened
  to its contents. \<open>operation\<close> is the uninitialised local variable of that name: its
  fields hold whatever they hold until the loop assigns them.
\<close>

definition load_meta_data ::
  "nat \<Rightarrow> (string \<rightharpoonup> string) \<Rightarrow> Operation \<Rightarrow> Simulator \<Rightarrow> string \<Rightarrow> (exn + Simulator) option" where
  "load_meta_data fuel files operation s filePath =
     (case files filePath of
        None \<Rightarrow> Some (Inl (runtime_error (''Error: Unable to open file '' @ filePath @ [CHR 0x0A])))
      | Some contents \<Rightarrow>
          (let (fin1, input1) = getline \<lparr>buffer = contents, good = True\<rparr> [] CHR '';'';
               fin2 = ws fin1
           in if input1 \<noteq> ''Start Program Meta-Data Code:'' @ [CHR 0x0A] @ ''S(start)0'' then
                Some (Inl (runtime_error
                  (''Error: Incorrect meta-data file format:             Simulator start flag is missing'' @ [CHR 0x0A])))
              else
                (case read_programs fuel s fin2 input1 operation of
                   None \<Rightarrow> None
                 | Some (Inl e) \<Rightarrow> Some (Inl e)
                 | Some (Inr (s1, fin3, input2)) \<Rightarrow>
                     (let (fin4, input3) = getline fin3 input2 CHR ''.'';
                          fin5 = ws fin4
                      in if input3 \<noteq> ''S(end)0'' then
                           Some (Inl (runtime_error
                             (''Error: Incorrect meta-data file format:             Simulator end flag is missing'' @ [CHR 0x0A])))
                         else
                           (let (fin6, input4) = getline fin5 input3 CHR ''.''
                            in if input4 \<noteq> ''End Program Meta-Data Code'' then
                                 Some (Inl (runtime_error
                                   (''Error: Incorrect meta-data file format:             Meta-Data file does not end after simulator operations end'' @ [CHR 0x0A])))
                               else Some (Inr s1))))))"

section \<open>Example inputs\<close>

text \<open>
  A configuration with the cycle times of the spec's FIFO scenario (processor 10,
  hard drive 5), a meta-data file around a given run of tokens, and the shape of a program
  as the loader leaves it.
\<close>

definition example_simulator :: Simulator where
  "example_simulator =
     \<lparr>schedulingCode = ''FIFO'', processorCycleTime = 10, monitorDisplayTime = 20,
      hardDriveCycleTime = 5, printerCycleTime = 30, keyboardCycleTime = 40,
      programs = [], SRTF_queue = [], printed = []\<rparr>"

definition meta_data :: "string \<Rightarrow> string" where
  "meta_data tokens =
     ''Start Program Meta-Data Code:'' @ [CHR 0x0A] @ ''S(start)0; '' @ tokens @
     '' S(end)0.'' @ [CHR 0x0A] @ ''End Program Meta-Data Code.'' @ [CHR 0x0A]"

definition control :: "string \<Rightarrow> Operation" where
  "control d = \<lparr>type = CHR ''A'', description = d, cycles = 0, cycleTime = 0\<rparr>"

definition loaded :: "Operation list \<Rightarrow> int \<Rightarrow> Program" where
  "loaded ops t = \<lparr>operations = ops, state = START, running_time = t, id = 0\<rparr>"

definition scenario_program :: Program where
  "scenario_program =
     loaded [control ''start'',
             \<lparr>type = CHR ''P'', description = ''run'', cycles = 3, cycleTime = 10\<rparr>,
             \<lparr>type = CHR ''I'', description = ''hard drive'', cycles = 2, cycleTime = 5\<rparr>,
             control ''end''] 40"

text \<open>Two programs with the same running time, shorter than the one above.\<close>

definition short_program :: Program where
  "short_program =
     loaded [control ''start'',
             \<lparr>type = CHR ''O'', description = ''monitor'', cycles = 1, cycleTime = 20\<rparr>,
             control ''end''] 20"


text \<open>
  A simulator under SRTF-N whose batch has two programs of the same running time, each of
  which needs two passes, and a shorter program admitted between them.
\<close>

definition srtf_simulator :: Simulator where
  "srtf_simulator =
     example_simulator\<lparr>schedulingCode := ''SRTF-N'',
                       programs := [scenario_program, short_program, scenario_program]\<rparr>"

section \<open>Programs as loaded, programs that can be run\<close>

text \<open>
  A program as \<^verbatim>\<open>load_meta_data\<close> stores it: in its initial state and without an id, ending
  with the operation of the token \<^verbatim>\<open>A(end)0\<close>, with the durations of its operations added
  up in 32-bit arithmetic, and with cycle time 0 on every program-control operation.
\<close>

definition as_loaded :: "Program \<Rightarrow> bool" where
  "as_loaded p \<longleftrightarrow>
     state p = START \<and> id p = 0 \<and>
     operations p \<noteq> [] \<and> last (operations p) = control ''end'' \<and>
     running_time p = wrap_int (sum_list (map duration (operations p))) \<and>
     (\<forall>operation \<in> set (operations p). type operation = CHR ''A'' \<longrightarrow> cycleTime operation = 0)"

text \<open>
  A program that the executor can process: \<^verbatim>\<open>process_operation\<close> takes the front of an empty
  queue only when the queue is empty at the call or holds nothing after a start bracket. A
  non-empty queue whose last operation is not a start bracket excludes both, and keeps
  excluding them while operations are taken off its front.
\<close>

definition runnable :: "Program \<Rightarrow> bool" where
  "runnable p \<longleftrightarrow>
     operations p \<noteq> [] \<and>
     \<not> (type (last (operations p)) = CHR ''A'' \<and> description (last (operations p)) = ''start'')"

section \<open>Meta-data made of well-formed tokens\<close>

text \<open>
  The text of a run of tokens, each followed by its semicolon and by the whitespace that
  separates it from what comes next; and the tokens that the first half of the loop body
  takes without throwing: at least the two characters that \<^verbatim>\<open>substr(2, ...)\<close> needs, a type
  letter for which \<^verbatim>\<open>set_operation_cycle_time\<close> has a branch, no semicolon inside, and a
  cycle count that \<^verbatim>\<open>std::stoi\<close> parses. Both describe inputs of \<^verbatim>\<open>load_meta_data\<close>.
\<close>

definition tokens_text :: "(string \<times> string) list \<Rightarrow> string" where
  "tokens_text tws = concat (map (\<lambda>(t, w). t @ '';'' @ w) tws)"

definition well_formed_token :: "string \<Rightarrow> bool" where
  "well_formed_token t =
     (2 \<le> length t \<and> hd t \<in> set ''PIOA'' \<and> CHR '';'' \<notin> set t
      \<and> (case stoi (drop (nat (find_char t CHR '')'' + 1)) t) of Inl e \<Rightarrow> False | Inr n \<Rightarrow> True))"

section \<open>Properties of the model\<close>

subsection \<open>What the loader builds\<close>

lemma set_operation_cycle_time_control:
  "set_operation_cycle_time s operation = Inr operation1 \<Longrightarrow>
   type operation1 = CHR ''A'' \<Longrightarrow> cycleTime operation1 = 0"
  by (auto simp: set_operation_cycle_time_def split: if_splits)

lemma parse_operation_control:
  "parse_operation s operation input = Inr operation1 \<Longrightarrow>
   type operation1 = CHR ''A'' \<Longrightarrow> cycleTime operation1 = 0"
  by (auto simp: parse_operation_def Let_def split: list.splits sum.splits
      dest: set_operation_cycle_time_control)

lemma parse_operation_end:
  "parse_operation s operation ''A(end)0'' = Inr operation1 \<Longrightarrow> operation1 = control ''end''"
  by (cases operation)
     (auto simp: parse_operation_def find_char_def substr_def stoi_def isdigit_def isspace_def
      digits_value_def set_operation_cycle_time_def control_def Let_def numeral_nat)

lemma wrap_int_in_range:
  "- 2147483648 \<le> x \<Longrightarrow> x \<le> 2147483647 \<Longrightarrow> wrap_int x = x"
  by (simp add: wrap_int_def)

lemma wrap_int_add: "wrap_int (wrap_int a + b) = wrap_int (a + b)"
proof -
  have e: "wrap_int a + b + 2147483648 = (a + 2147483648) mod 4294967296 + b"
    by (simp add: wrap_int_def)
  have "(wrap_int a + b + 2147483648) mod 4294967296
        = ((a + 2147483648) mod 4294967296 + b) mod 4294967296"
    by (simp only: e)
  also have "\<dots> = (a + 2147483648 + b) mod 4294967296"
    by (rule mod_add_left_eq)
  also have "a + 2147483648 + b = a + b + 2147483648"
    by simp
  finally have "(wrap_int a + b + 2147483648) mod 4294967296 = (a + b + 2147483648) mod 4294967296" .
  then show ?thesis
    unfolding wrap_int_def [of "wrap_int a + b"] wrap_int_def [of "a + b"] by simp
qed
lemma wrap_int_zero: "wrap_int 0 = 0" by (simp add: wrap_int_def)

lemma add_operation_fields:
  "state (add_operation p operation) = state p"
  "id (add_operation p operation) = id p"
  "operations (add_operation p operation) = operations p @ [operation]"
  "running_time (add_operation p operation) = wrap_int (running_time p + duration operation)"
  by (simp_all add: add_operation_def)

lemma read_program_result:
  "read_program fuel s fin input operation p = Some (Inr (fin', input', operation', p')) \<Longrightarrow>
   running_time p = wrap_int (sum_list (map duration (operations p))) \<Longrightarrow>
   \<forall>x \<in> set (operations p). type x = CHR ''A'' \<longrightarrow> cycleTime x = 0 \<Longrightarrow>
   state p' = state p \<and> id p' = id p \<and>
   operations p' \<noteq> [] \<and> last (operations p') = control ''end'' \<and>
   running_time p' = wrap_int (sum_list (map duration (operations p'))) \<and>
   (\<forall>x \<in> set (operations p'). type x = CHR ''A'' \<longrightarrow> cycleTime x = 0)"
proof (induction fuel arbitrary: fin input operation p)
  case 0
  then show ?case by simp
next
  case (Suc fuel)
  obtain fin1 input1 where g: "getline fin input CHR '';'' = (fin1, input1)"
    by (cases "getline fin input CHR '';''")
  from Suc.prems(1) g obtain operation1 where
    po: "parse_operation s operation input1 = Inr operation1"
    by (auto split: sum.splits)
  let ?p1 = "add_operation p operation1"
  have inv1: "running_time ?p1 = wrap_int (sum_list (map duration (operations ?p1)))"
    using Suc.prems(2) by (simp add: add_operation_fields wrap_int_add)
  have inv2: "\<forall>x \<in> set (operations ?p1). type x = CHR ''A'' \<longrightarrow> cycleTime x = 0"
    using Suc.prems(3) parse_operation_control [OF po] by (auto simp: add_operation_fields)
  show ?case
  proof (cases "input1 = ''A(end)0''")
    case True
    then have "p' = ?p1"
      using Suc.prems(1) g po by (auto simp: Let_def)
    moreover have "operation1 = control ''end''"
      using po True parse_operation_end by blast
    ultimately show ?thesis
      using inv1 inv2 by (simp add: add_operation_fields)
  next
    case False
    then have "read_program fuel s (ws fin1) input1 operation1 ?p1
               = Some (Inr (fin', input', operation', p'))"
      using Suc.prems(1) g po by (simp add: Let_def)
    from Suc.IH [OF this inv1 inv2] show ?thesis
      by (simp add: add_operation_fields)
  qed
qed

lemma read_programs_result:
  "read_programs fuel s fin input operation = Some (Inr (s', fin', input')) \<Longrightarrow>
   \<exists>new. programs s' = programs s @ new \<and> (\<forall>p \<in> set new. as_loaded p) \<and>
         s'\<lparr>programs := []\<rparr> = s\<lparr>programs := []\<rparr>"
proof (induction fuel arbitrary: s fin input operation)
  case 0
  then show ?case by simp
next
  case (Suc fuel)
  obtain c fin1 where pk: "peek fin = (c, fin1)"
    by (cases "peek fin")
  show ?case
  proof (cases "c = Some CHR ''S''")
    case True
    then have "s' = s" using Suc.prems pk by simp
    then show ?thesis by simp
  next
    case False
    with Suc.prems pk obtain fin2 input1 operation1 newProgram where
      rp: "read_program fuel s fin1 input operation new_Program
           = Some (Inr (fin2, input1, operation1, newProgram))" and
      rest: "read_programs fuel (s\<lparr>programs := programs s @ [newProgram]\<rparr>) fin2 input1 operation1
             = Some (Inr (s', fin', input'))"
      by (auto split: option.splits sum.splits)
    have "as_loaded newProgram"
      using read_program_result [OF rp] by (simp add: new_Program_def as_loaded_def wrap_int_zero)
    moreover from Suc.IH [OF rest] obtain new where
      "programs s' = (programs s @ [newProgram]) @ new" "\<forall>p \<in> set new. as_loaded p"
      "s'\<lparr>programs := []\<rparr> = s\<lparr>programs := []\<rparr>"
      by auto
    ultimately show ?thesis
      by (intro exI [of _ "newProgram # new"]) simp
  qed
qed

lemma load_meta_data_result:
  "load_meta_data fuel files operation s filePath = Some (Inr s') \<Longrightarrow>
   \<exists>new. programs s' = programs s @ new \<and> (\<forall>p \<in> set new. as_loaded p) \<and>
         s'\<lparr>programs := []\<rparr> = s\<lparr>programs := []\<rparr>"
  by (auto simp: load_meta_data_def Let_def
      split: option.splits sum.splits prod.splits if_splits dest!: read_programs_result)

lemma sum_without_control:
  "\<forall>x \<in> set ops. type x = CHR ''A'' \<longrightarrow> cycleTime x = 0 \<Longrightarrow>
   sum_list (map duration ops) = sum_list (map duration [x \<leftarrow> ops. type x \<noteq> CHR ''A''])"
  by (induction ops) (simp_all add: duration_def wrap_int_def)

lemmas load_eval =
  load_meta_data_def meta_data_def getline_def ws_def peek_def isspace_def
  parse_operation_def find_char_def substr_def stoi_def isdigit_def digits_value_def
  set_operation_cycle_time_def add_operation_def new_Program_def duration_def wrap_int_def
  example_simulator_def control_def loaded_def numeral_nat Let_def

lemma scenario_load:
  "load_meta_data 5 [''meta'' \<mapsto> meta_data ''A(start)0; P(run)3; I(hard drive)2; A(end)0;'']
     operation example_simulator ''meta''
   = Some (Inr (example_simulator\<lparr>programs := [scenario_program]\<rparr>))"
  by (simp add: load_eval scenario_program_def)

subsection \<open>What the schedulers leave alone\<close>

lemma frame_running_time:
  "p'\<lparr>operations := []\<rparr> = p\<lparr>operations := []\<rparr> \<Longrightarrow> running_time p' = running_time p"
  by (drule arg_cong [where f = running_time]) simp

lemma frame_id:
  "p'\<lparr>operations := []\<rparr> = p\<lparr>operations := []\<rparr> \<Longrightarrow> id p' = id p"
  by (drule arg_cong [where f = id]) simp


lemma fifo_drain_result:
  "fifo_drain s p = Inr (s', p') \<Longrightarrow>
   s'\<lparr>printed := []\<rparr> = s\<lparr>printed := []\<rparr> \<and> p'\<lparr>operations := []\<rparr> = p\<lparr>operations := []\<rparr> \<and>
   operations p' = []"
proof (induction s p rule: fifo_drain.induct)
  case (1 s program)
  show ?case
  proof (cases "program_done program")
    case True
    then show ?thesis using "1.prems" by (simp add: fifo_drain.simps [of s program] program_done_def)
  next
    case False
    with "1.prems" obtain s1 program1 where
      po: "process_operation s program = Inr (s1, program1)" and
      rest: "fifo_drain s1 program1 = Inr (s', p')"
      by (auto simp: fifo_drain.simps [of s program] split: sum.splits)
    from "1.IH" [OF False po refl rest]
    show ?thesis
      using process_operation_frame [OF po] process_operation_program_frame [OF po] by simp
  qed
qed

lemma fifo_loop_frame:
  "fifo_loop s c ps = Inr s' \<Longrightarrow> s'\<lparr>printed := []\<rparr> = s\<lparr>printed := []\<rparr>"
proof (induction ps arbitrary: s c)
  case Nil
  then show ?case by simp
next
  case (Cons p ps)
  let ?s1 = "print s ''OS: selecting next process''"
  from Cons.prems obtain s2 p3 where
    d: "fifo_drain ?s1 (p\<lparr>id := c + 1, state := RUNNING\<rparr>) = Inr (s2, p3)" and
    rest: "fifo_loop s2 (c + 1) ps = Inr s'"
    by (auto simp: Let_def split: sum.splits)
  from Cons.IH [OF rest] fifo_drain_result [OF d] show ?case
    by (simp add: print_frame)
qed

lemma srtf_admit_frame:
  "(srtf_admit s ps)\<lparr>printed := [], SRTF_queue := []\<rparr> = s\<lparr>printed := [], SRTF_queue := []\<rparr>"
  by (induction ps arbitrary: s) simp_all

lemma srtf_iteration_frame:
  assumes "srtf_iteration s c = Inr (s', c')"
  shows "s'\<lparr>printed := [], SRTF_queue := []\<rparr> = s\<lparr>printed := [], SRTF_queue := []\<rparr>"
proof -
  from assms obtain top_program popped where q: "SRTF_queue s = top_program # popped"
    by (auto simp: srtf_iteration_def split: list.splits)
  define s2 where "s2 = (print s ''OS: selecting next process'')\<lparr>SRTF_queue := popped\<rparr>"
  from assms q obtain s3 program program1 where
    po: "process_operation s2 program = Inr (s3, program1)" and
    s': "s' = fst (srtf_finish s3 program1)"
    by (auto simp: srtf_iteration_def Let_def s2_def split: sum.splits prod.splits)
  have "s3\<lparr>printed := [], SRTF_queue := []\<rparr> = s2\<lparr>printed := [], SRTF_queue := []\<rparr>"
    using arg_cong [OF process_operation_frame [OF po], of "SRTF_queue_update (\<lambda>_. [])"]
    by simp
  then show ?thesis
    by (simp add: s' srtf_finish_def s2_def print_def)
qed

lemma srtf_loop_result:
  "srtf_loop s c = Inr s' \<Longrightarrow>
   s'\<lparr>printed := [], SRTF_queue := []\<rparr> = s\<lparr>printed := [], SRTF_queue := []\<rparr> \<and> SRTF_queue s' = []"
proof (induction s c rule: srtf_loop.induct)
  case (1 s c)
  show ?case
  proof (cases "SRTF_queue s = []")
    case True
    then show ?thesis using "1.prems" by (simp add: srtf_loop.simps [of s c])
  next
    case False
    with "1.prems" obtain s1 c1 where
      it: "srtf_iteration s c = Inr (s1, c1)" and rest: "srtf_loop s1 c1 = Inr s'"
      by (auto simp: srtf_loop.simps [of s c] split: sum.splits)
    from "1.IH" [OF False it refl rest] srtf_iteration_frame [OF it]
    show ?thesis by simp
  qed
qed

lemma frame2_programs:
  "s'\<lparr>printed := [], SRTF_queue := []\<rparr> = s\<lparr>printed := [], SRTF_queue := []\<rparr> \<Longrightarrow>
   programs s' = programs s"
  by (drule arg_cong [where f = programs]) simp

lemma run_frame:
  assumes "run s = Inr s'"
  shows "s'\<lparr>printed := [], SRTF_queue := []\<rparr> = s\<lparr>printed := [], SRTF_queue := []\<rparr>"
proof (cases "schedulingCode s = ''FIFO''")
  case True
  with assms obtain s2 where
    "fifo_loop (print (print s ''Simulator program starting'') ''OS: preparing all processes'') 0
       (programs s) = Inr s2" and "s' = print s2 ''Simulator program ending''"
    by (auto simp: run_def Let_def print_def split: sum.splits)
  then show ?thesis
    using fifo_loop_frame [of _ 0 "programs s" s2] by (simp add: print_def)
next
  case False
  with assms obtain s2 where
    l: "srtf_loop (srtf_admit (print (print s ''Simulator program starting'')
          ''OS: preparing all processes'') (programs s)) 0 = Inr s2" and
    s': "s' = print s2 ''Simulator program ending''"
    by (auto simp: run_def Let_def print_def split: sum.splits)
  have "(srtf_admit (print (print s ''Simulator program starting'')
          ''OS: preparing all processes'') (programs s))\<lparr>printed := [], SRTF_queue := []\<rparr>
        = s\<lparr>printed := [], SRTF_queue := []\<rparr>"
    using srtf_admit_frame [of "print (print s ''Simulator program starting'')
          ''OS: preparing all processes''" "programs s"]
    by (simp add: print_def)
  then show ?thesis
    using srtf_loop_result [OF l] s' by (simp add: print_def)
qed

subsection \<open>The run returns\<close>

lemma program_next_drop:
  "program_next p = Inr (operation, p') \<Longrightarrow> operations p' = drop 1 (operations p)"
  by (auto simp: program_next_def split: list.splits)

lemma fetch_operation_drop:
  "fetch_operation s p = Inr (s', operation, p') \<Longrightarrow>
   operations p' = drop 1 (operations p) \<or> operations p' = drop 2 (operations p)"
  by (auto simp: fetch_operation_def drop_Suc numeral_2_eq_2 drop_tl
      split: sum.splits if_splits dest!: program_next_drop)

lemma process_operation_drop:
  assumes "process_operation s p = Inr (s', p')"
  shows "\<exists>k. operations p' = drop k (operations p)"
proof -
  from assms obtain s1 operation p1 where f: "fetch_operation s p = Inr (s1, operation, p1)"
    by (auto simp: process_operation_def split: sum.splits)
  have "operations p' = operations p1 \<or> operations p' = drop 1 (operations p1)"
    using assms f
    by (auto simp: process_operation_def Let_def split: sum.splits if_splits
        dest!: program_next_drop)
  with fetch_operation_drop [OF f] show ?thesis
    by (metis drop_drop)
qed

lemma runnable_drop:
  "runnable p \<Longrightarrow> operations p' = drop k (operations p) \<Longrightarrow> operations p' \<noteq> [] \<Longrightarrow> runnable p'"
  by (simp add: runnable_def)

lemma fetch_operation_total:
  "runnable p \<Longrightarrow> \<exists>s' operation p'. fetch_operation s p = Inr (s', operation, p')"
  by (cases "operations p"; cases "tl (operations p)")
     (auto simp: runnable_def fetch_operation_def program_next_def)

lemma process_operation_total:
  assumes "runnable p"
  shows "\<exists>s' p'. process_operation s p = Inr (s', p')"
proof -
  from fetch_operation_total [OF assms] obtain s1 operation p1 where
    f: "fetch_operation s p = Inr (s1, operation, p1)"
    by blast
  show ?thesis
    by (cases "operations p1")
       (auto simp: process_operation_def f Let_def remaining_operations_def program_next_def)
qed

lemma process_operation_runnable:
  "runnable p \<Longrightarrow> process_operation s p = Inr (s', p') \<Longrightarrow> operations p' = [] \<or> runnable p'"
  using process_operation_drop runnable_drop by blast

lemma fifo_drain_total:
  "operations p = [] \<or> runnable p \<Longrightarrow> \<exists>s' p'. fifo_drain s p = Inr (s', p')"
proof (induction s p rule: fifo_drain.induct)
  case (1 s program)
  show ?case
  proof (cases "program_done program")
    case True
    then show ?thesis by (simp add: fifo_drain.simps [of s program])
  next
    case False
    then have r: "runnable program"
      using "1.prems" by (simp add: program_done_def)
    from process_operation_total [OF r] obtain s1 program1 where
      po: "process_operation s program = Inr (s1, program1)"
      by blast
    from "1.IH" [OF False po refl] process_operation_runnable [OF r po]
    show ?thesis
      using False po by (simp add: fifo_drain.simps [of s program])
  qed
qed

lemma runnable_fields:
  "runnable (p\<lparr>id := i\<rparr>) = runnable p" "runnable (p\<lparr>state := st\<rparr>) = runnable p"
  by (simp_all add: runnable_def)

lemma fifo_loop_total:
  "\<forall>p \<in> set ps. operations p = [] \<or> runnable p \<Longrightarrow> \<exists>s'. fifo_loop s c ps = Inr s'"
proof (induction ps arbitrary: s c)
  case Nil
  then show ?case by simp
next
  case (Cons p ps)
  let ?p = "p\<lparr>id := c + 1, state := RUNNING\<rparr>"
  have "operations ?p = [] \<or> runnable ?p"
    using Cons.prems by (simp add: runnable_fields)
  from fifo_drain_total [OF this] obtain s2 p3 where
    "fifo_drain (print s ''OS: selecting next process'') ?p = Inr (s2, p3)"
    by blast
  moreover from Cons.IH [of s2 "c + 1"] Cons.prems obtain s' where
    "fifo_loop s2 (c + 1) ps = Inr s'"
    by auto
  ultimately show ?case by (simp add: Let_def)
qed

lemma queue_push_set: "set (queue_push p q) = insert p (set q)"
  by (induction q) auto

lemma srtf_admit_queue_set:
  "set (SRTF_queue (srtf_admit s ps)) = set (SRTF_queue s) \<union> (\<lambda>p. p\<lparr>state := READY\<rparr>) ` set ps"
  by (induction ps arbitrary: s) (auto simp: queue_push_set)

lemma srtf_iteration_total:
  assumes "SRTF_queue s \<noteq> []" and "\<forall>p \<in> set (SRTF_queue s). runnable p"
  shows "\<exists>s' c'. srtf_iteration s c = Inr (s', c') \<and> (\<forall>p \<in> set (SRTF_queue s'). runnable p)"
proof -
  from assms(1) obtain top_program popped where q: "SRTF_queue s = top_program # popped"
    by (cases "SRTF_queue s") auto
  define s2 where "s2 = (print s ''OS: selecting next process'')\<lparr>SRTF_queue := popped\<rparr>"
  define program where "program = snd (srtf_select c top_program)"
  have r: "runnable program"
    using assms(2) q by (simp add: program_def srtf_select_def runnable_fields)
  from process_operation_total [OF r] obtain s3 program1 where
    po: "process_operation s2 program = Inr (s3, program1)"
    by blast
  have q3: "SRTF_queue s3 = popped"
    using frame_SRTF_queue [OF process_operation_frame [OF po]] by (simp add: s2_def)
  have "srtf_iteration s c = Inr (fst (srtf_finish s3 program1), fst (srtf_select c top_program))"
    using po by (simp add: srtf_iteration_def q Let_def s2_def program_def case_prod_beta)
  moreover have "\<forall>p \<in> set (SRTF_queue (fst (srtf_finish s3 program1))). runnable p"
    using process_operation_runnable [OF r po] assms(2) q q3
    by (auto simp: srtf_finish_def program_done_def queue_push_set runnable_fields)
  ultimately show ?thesis by blast
qed

lemma srtf_loop_total:
  "\<forall>p \<in> set (SRTF_queue s). runnable p \<Longrightarrow> \<exists>s'. srtf_loop s c = Inr s'"
proof (induction s c rule: srtf_loop.induct)
  case (1 s c)
  show ?case
  proof (cases "SRTF_queue s = []")
    case True
    then show ?thesis by (simp add: srtf_loop.simps [of s c])
  next
    case False
    from srtf_iteration_total [OF False "1.prems"] obtain s1 c1 where
      it: "srtf_iteration s c = Inr (s1, c1)" and r: "\<forall>p \<in> set (SRTF_queue s1). runnable p"
      by blast
    from "1.IH" [OF False it refl r] show ?thesis
      using False it by (simp add: srtf_loop.simps [of s c])
  qed
qed

lemma run_total:
  assumes "\<forall>p \<in> set (programs s). runnable p" and "SRTF_queue s = []"
  shows "\<exists>s'. run s = Inr s'"
proof (cases "schedulingCode s = ''FIFO''")
  case True
  from fifo_loop_total [of "programs s"] assms(1) obtain s2 where
    "fifo_loop (print (print s ''Simulator program starting'') ''OS: preparing all processes'') 0
       (programs s) = Inr s2"
    by blast
  then show ?thesis
    using True by (simp add: run_def Let_def print_def)
next
  case False
  let ?s = "srtf_admit (print (print s ''Simulator program starting'')
      ''OS: preparing all processes'') (programs s)"
  have "\<forall>p \<in> set (SRTF_queue ?s). runnable p"
    using assms by (auto simp: srtf_admit_queue_set print_def runnable_fields)
  from srtf_loop_total [OF this] obtain s2 where "srtf_loop ?s 0 = Inr s2"
    by blast
  then show ?thesis
    using False by (simp add: run_def Let_def print_def)
qed

lemma as_loaded_runnable: "as_loaded p \<Longrightarrow> runnable p"
  by (simp add: as_loaded_def runnable_def control_def)

subsection \<open>The priority structure\<close>

lemma queue_push_sorted:
  "sorted (map running_time q) \<Longrightarrow> sorted (map running_time (queue_push p q))"
  by (induction q) (auto simp: program_less_def queue_push_set)

lemma queue_push_mset: "mset (queue_push p q) = add_mset p (mset q)"
  by (induction q) auto

lemma queue_push_filter:
  "sorted (map running_time q) \<Longrightarrow>
   [x \<leftarrow> queue_push p q. k = running_time x]
   = [x \<leftarrow> q. k = running_time x] @ (if running_time p = k then [p] else [])"
proof (induction q)
  case Nil
  then show ?case by simp
next
  case (Cons x xs)
  show ?case
  proof (cases "program_less p x")
    case True
    then have "\<forall>y \<in> set (x # xs). running_time p < running_time y"
      using Cons.prems by (auto simp: program_less_def)
    then have "running_time p = k \<Longrightarrow> [y \<leftarrow> x # xs. k = running_time y] = []"
      by (auto simp: filter_empty_conv)
    then show ?thesis using True by auto
  next
    case False
    then show ?thesis using Cons by auto
  qed
qed

lemma queue_push_filter_other:
  "\<not> P p \<Longrightarrow> filter P (queue_push p q) = filter P q"
  by (induction q) auto

lemma srtf_admit_queue:
  "sorted (map running_time (SRTF_queue s)) \<Longrightarrow>
   sorted (map running_time (SRTF_queue (srtf_admit s ps))) \<and>
   mset (SRTF_queue (srtf_admit s ps))
     = mset (SRTF_queue s) + mset (map (\<lambda>p. p\<lparr>state := READY\<rparr>) ps) \<and>
   (\<forall>k. [x \<leftarrow> SRTF_queue (srtf_admit s ps). k = running_time x]
     = [x \<leftarrow> SRTF_queue s. k = running_time x]
       @ [x \<leftarrow> map (\<lambda>p. p\<lparr>state := READY\<rparr>) ps. k = running_time x])"
proof (induction ps arbitrary: s)
  case Nil
  then show ?case by simp
next
  case (Cons p ps)
  let ?s = "s\<lparr>SRTF_queue := queue_push (p\<lparr>state := READY\<rparr>) (SRTF_queue s)\<rparr>"
  have "sorted (map running_time (SRTF_queue ?s))"
    using Cons.prems by (simp add: queue_push_sorted)
  from Cons.IH [OF this] show ?case
    using Cons.prems by (simp add: queue_push_mset queue_push_filter)
qed

lemma srtf_admit_sort_key:
  assumes "SRTF_queue s = []"
  shows "SRTF_queue (srtf_admit s ps) = sort_key running_time (map (\<lambda>p. p\<lparr>state := READY\<rparr>) ps)"
proof -
  have "sorted (map running_time (SRTF_queue s))" using assms by simp
  from srtf_admit_queue [OF this, of ps] show ?thesis
    using assms by (intro properties_for_sort_key [symmetric]) simp_all
qed

subsection \<open>One pass of the scheduling loop\<close>

lemma srtf_iteration_queue:
  assumes q: "SRTF_queue s = top_program # popped" and it: "srtf_iteration s c = Inr (s', c')"
  shows "\<exists>s3 program1.
           process_operation ((print s ''OS: selecting next process'')\<lparr>SRTF_queue := popped\<rparr>)
             (snd (srtf_select c top_program)) = Inr (s3, program1) \<and>
           SRTF_queue s3 = popped \<and>
           s' = fst (srtf_finish s3 program1) \<and> c' = fst (srtf_select c top_program)"
proof -
  define s2 where "s2 = (print s ''OS: selecting next process'')\<lparr>SRTF_queue := popped\<rparr>"
  from it q obtain s3 program1 where
    po: "process_operation s2 (snd (srtf_select c top_program)) = Inr (s3, program1)" and
    s': "s' = fst (srtf_finish s3 program1)" and c': "c' = fst (srtf_select c top_program)"
    by (auto simp: srtf_iteration_def Let_def s2_def split: sum.splits prod.splits)
  have "SRTF_queue s3 = popped"
    using frame_SRTF_queue [OF process_operation_frame [OF po]] by (simp add: s2_def)
  with po s' c' show ?thesis unfolding s2_def by blast
qed

lemma srtf_iteration_keys:
  assumes q: "SRTF_queue s = top_program # popped" and it: "srtf_iteration s c = Inr (s', c')"
  shows "SRTF_queue s' = popped \<or>
         (\<exists>p. SRTF_queue s' = queue_push p popped \<and> running_time p = running_time top_program
              \<and> (id top_program \<noteq> 0 \<and> id p = id top_program \<or> id top_program = 0 \<and> id p = c + 1))"
    and "c \<le> c'"
proof -
  from srtf_iteration_queue [OF q it] obtain s3 program1 where
    po: "process_operation ((print s ''OS: selecting next process'')\<lparr>SRTF_queue := popped\<rparr>)
           (snd (srtf_select c top_program)) = Inr (s3, program1)" and
    q3: "SRTF_queue s3 = popped" and
    s': "s' = fst (srtf_finish s3 program1)" and c': "c' = fst (srtf_select c top_program)"
    by blast
  note fr = process_operation_program_frame [OF po]
  have "running_time program1 = running_time top_program"
    using frame_running_time [OF fr] by (simp add: srtf_select_def)
  moreover have "id top_program \<noteq> 0 \<and> id program1 = id top_program \<or>
      id top_program = 0 \<and> id program1 = c + 1"
    using frame_id [OF fr] by (simp add: srtf_select_def)
  ultimately show "SRTF_queue s' = popped \<or>
         (\<exists>p. SRTF_queue s' = queue_push p popped \<and> running_time p = running_time top_program
              \<and> (id top_program \<noteq> 0 \<and> id p = id top_program \<or> id top_program = 0 \<and> id p = c + 1))"
    by (auto simp: s' q3 srtf_finish_def)
  show "c \<le> c'"
    by (simp add: c' srtf_select_def)
qed

lemma srtf_iteration_sorted:
  assumes "SRTF_queue s = top_program # popped" and "srtf_iteration s c = Inr (s', c')"
    and "sorted (map running_time (SRTF_queue s))"
  shows "sorted (map running_time (SRTF_queue s'))"
    and "\<forall>p \<in> set (SRTF_queue s'). running_time top_program \<le> running_time p"
  using srtf_iteration_keys(1) [OF assms(1,2)] assms(1,3)
  by (auto simp: queue_push_sorted queue_push_set)

lemma srtf_iteration_fresh:
  assumes "SRTF_queue s = top_program # popped" and "srtf_iteration s c = Inr (s', c')"
    and "0 \<le> c"
  shows "[p \<leftarrow> SRTF_queue s'. id p = 0] = [p \<leftarrow> popped. id p = 0]"
  using srtf_iteration_keys(1) [OF assms(1,2)] assms(3)
  by (auto simp: queue_push_filter_other)

lemma srtf_dispatches_sorted:
  "sorted (map running_time (SRTF_queue s)) \<Longrightarrow>
   sorted (map running_time (srtf_dispatches s c)) \<and>
   (\<forall>d \<in> set (srtf_dispatches s c). \<forall>p \<in> set (SRTF_queue s).
      (\<forall>q \<in> set (SRTF_queue s). running_time p \<le> running_time q) \<longrightarrow> running_time p \<le> running_time d)"
proof (induction s c rule: srtf_dispatches.induct)
  case (1 s c)
  show ?case
  proof (cases "SRTF_queue s")
    case Nil
    then show ?thesis by (simp add: srtf_dispatches.simps [of s c])
  next
    case (Cons top_program popped)
    show ?thesis
    proof (cases "srtf_iteration s c")
      case (Inl e)
      then show ?thesis
        using Cons by (auto simp: srtf_dispatches.simps [of s c])
    next
      case (Inr r)
      then obtain s1 c1 where it: "srtf_iteration s c = Inr (s1, c1)"
        by (cases r) auto
      note so = srtf_iteration_sorted [OF Cons it "1.prems"]
      from "1.IH" [OF Cons it refl so(1)] have
        ih1: "sorted (map running_time (srtf_dispatches s1 c1))" and
        ih2: "\<forall>d \<in> set (srtf_dispatches s1 c1). \<forall>p \<in> set (SRTF_queue s1).
               (\<forall>q \<in> set (SRTF_queue s1). running_time p \<le> running_time q)
               \<longrightarrow> running_time p \<le> running_time d"
        by blast+
      have low: "running_time top_program \<le> running_time d" if "d \<in> set (srtf_dispatches s1 c1)" for d
      proof (cases "SRTF_queue s1")
        case Nil
        then show ?thesis using that by (simp add: srtf_dispatches.simps [of s1 c1])
      next
        case (Cons t1 rest1)
        have "\<forall>q \<in> set (SRTF_queue s1). running_time t1 \<le> running_time q"
          using so(1) Cons by auto
        then have "running_time t1 \<le> running_time d"
          using ih2 that Cons by auto
        moreover have "running_time top_program \<le> running_time t1"
          using so(2) Cons by simp
        ultimately show ?thesis by simp
      qed
      have d: "srtf_dispatches s c = top_program # srtf_dispatches s1 c1"
        using Cons it by (simp add: srtf_dispatches.simps [of s c])
      have "sorted (map running_time (srtf_dispatches s c))"
        using ih1 low by (simp add: d)
      moreover have "running_time p \<le> running_time d'"
        if "d' \<in> set (srtf_dispatches s c)" "p \<in> set (SRTF_queue s)"
           "\<forall>q \<in> set (SRTF_queue s). running_time p \<le> running_time q" for d' p
      proof -
        have "running_time p \<le> running_time top_program"
          using that(3) Cons by simp
        then show ?thesis
          using that(1) low by (fastforce simp: d)
      qed
      ultimately show ?thesis by blast
    qed
  qed
qed

lemma srtf_dispatches_fresh:
  "0 \<le> c \<Longrightarrow> \<forall>p \<in> set (SRTF_queue s). runnable p \<Longrightarrow>
   [p \<leftarrow> srtf_dispatches s c. id p = 0] = [p \<leftarrow> SRTF_queue s. id p = 0]"
proof (induction s c rule: srtf_dispatches.induct)
  case (1 s c)
  show ?case
  proof (cases "SRTF_queue s")
    case Nil
    then show ?thesis by (simp add: srtf_dispatches.simps [of s c])
  next
    case (Cons top_program popped)
    then have ne: "SRTF_queue s \<noteq> []" by simp
    from srtf_iteration_total [OF ne "1.prems"(2), of c] obtain s1 c1 where
      it: "srtf_iteration s c = Inr (s1, c1)" and r: "\<forall>p \<in> set (SRTF_queue s1). runnable p"
      by blast
    have c1: "0 \<le> c1"
      using srtf_iteration_keys(2) [OF Cons it] "1.prems"(1) by simp
    have d: "srtf_dispatches s c = top_program # srtf_dispatches s1 c1"
      using Cons it by (simp add: srtf_dispatches.simps [of s c])
    from "1.IH" [OF Cons it refl c1 r] srtf_iteration_fresh [OF Cons it "1.prems"(1)]
    show ?thesis
      by (simp add: d Cons)
  qed
qed



subsection \<open>The passes of the scheduling loop\<close>

lemma queue_push_takeWhile:
  "queue_push p q
   = takeWhile (\<lambda>x. running_time x \<le> running_time p) q
     @ p # dropWhile (\<lambda>x. running_time x \<le> running_time p) q"
  by (induction q) (auto simp: program_less_def)

lemma srtf_passes_Suc:
  "srtf_passes k s c = Inr (sk, ck) \<Longrightarrow>
   srtf_passes (Suc k) s c
   = (case srtf_iteration sk ck of Inl e \<Rightarrow> Inl e | Inr (s1, c1) \<Rightarrow> Inr (s1, c1))"
proof (induction k arbitrary: s c)
  case 0
  then show ?case by (auto split: sum.splits)
next
  case (Suc k)
  from Suc.prems obtain s1 c1 where
    it: "srtf_iteration s c = Inr (s1, c1)" and r: "srtf_passes k s1 c1 = Inr (sk, ck)"
    by (auto split: sum.splits)
  from Suc.IH [OF r] it show ?case
    by simp
qed

lemma srtf_loop_passes:
  "srtf_loop s c = Inr s' \<Longrightarrow>
   \<exists>c'. srtf_passes (length (srtf_dispatches s c)) s c = Inr (s', c') \<and> SRTF_queue s' = []"
proof (induction s c rule: srtf_loop.induct)
  case (1 s c)
  show ?case
  proof (cases "SRTF_queue s")
    case Nil
    then have d: "srtf_dispatches s c = []"
      by (simp add: srtf_dispatches.simps [of s c])
    from Nil "1.prems" have "s' = s"
      by (simp add: srtf_loop.simps [of s c])
    with Nil show ?thesis
      by (simp add: d)
  next
    case (Cons top_program popped)
    with "1.prems" obtain s1 c1 where
      it: "srtf_iteration s c = Inr (s1, c1)" and l: "srtf_loop s1 c1 = Inr s'"
      by (auto simp: srtf_loop.simps [of s c] split: sum.splits)
    from Cons have ne: "SRTF_queue s \<noteq> []"
      by simp
    from "1.IH" [OF ne it refl l] show ?thesis
      using Cons it by (simp add: srtf_dispatches.simps [of s c])
  qed
qed

lemma srtf_passes_dispatch:
  "k < length (srtf_dispatches s c) \<Longrightarrow> srtf_loop s c = Inr s' \<Longrightarrow>
   \<exists>sk ck. srtf_passes k s c = Inr (sk, ck) \<and> SRTF_queue sk \<noteq> []
     \<and> hd (SRTF_queue sk) = srtf_dispatches s c ! k
     \<and> (\<exists>s1 c1. srtf_iteration sk ck = Inr (s1, c1))"
proof (induction k arbitrary: s c)
  case 0
  then obtain top_program popped where q: "SRTF_queue s = top_program # popped"
    by (cases "SRTF_queue s") (auto simp: srtf_dispatches.simps [of s c])
  with "0.prems"(2) obtain s1 c1 where "srtf_iteration s c = Inr (s1, c1)"
    by (auto simp: srtf_loop.simps [of s c] split: sum.splits)
  with q show ?case
    by (simp add: srtf_dispatches.simps [of s c])
next
  case (Suc k)
  then obtain top_program popped where q: "SRTF_queue s = top_program # popped"
    by (cases "SRTF_queue s") (auto simp: srtf_dispatches.simps [of s c])
  with Suc.prems(2) obtain s1 c1 where
    it: "srtf_iteration s c = Inr (s1, c1)" and l: "srtf_loop s1 c1 = Inr s'"
    by (auto simp: srtf_loop.simps [of s c] split: sum.splits)
  have d: "srtf_dispatches s c = top_program # srtf_dispatches s1 c1"
    using q it by (simp add: srtf_dispatches.simps [of s c])
  with Suc.prems(1) have "k < length (srtf_dispatches s1 c1)"
    by simp
  from Suc.IH [OF this l] show ?case
    using it by (simp add: d)
qed

lemma srtf_passes_sorted:
  "srtf_passes k s c = Inr (sk, ck) \<Longrightarrow> sorted (map running_time (SRTF_queue s)) \<Longrightarrow>
   sorted (map running_time (SRTF_queue sk))"
proof (induction k arbitrary: s c)
  case 0
  then show ?case by simp
next
  case (Suc k)
  from Suc.prems(1) obtain s1 c1 where
    it: "srtf_iteration s c = Inr (s1, c1)" and r: "srtf_passes k s1 c1 = Inr (sk, ck)"
    by (auto split: sum.splits)
  from it obtain top_program popped where q: "SRTF_queue s = top_program # popped"
    by (cases "SRTF_queue s") (auto simp: srtf_iteration_def)
  from Suc.IH [OF r srtf_iteration_sorted(1) [OF q it Suc.prems(2)]] show ?case .
qed

lemma process_operation_program:
  "(case process_operation s p of Inl e \<Rightarrow> Inl e | Inr (s', p') \<Rightarrow> Inr p')
   = (case process_operation t p of Inl e \<Rightarrow> Inl e | Inr (t', p') \<Rightarrow> Inr p')"
  by (auto simp: process_operation_def fetch_operation_def Let_def
      split: sum.splits if_splits)

lemma srtf_iteration_queue_only:
  assumes "SRTF_queue s = SRTF_queue t"
  shows "(case srtf_iteration s c of Inl e \<Rightarrow> Inl e | Inr (s', c') \<Rightarrow> Inr (SRTF_queue s', c'))
       = (case srtf_iteration t c of Inl e \<Rightarrow> Inl e | Inr (t', c') \<Rightarrow> Inr (SRTF_queue t', c'))"
proof (cases "SRTF_queue s")
  case Nil
  with assms show ?thesis by (simp add: srtf_iteration_def)
next
  case (Cons top_program popped)
  let ?s2 = "(print s ''OS: selecting next process'')\<lparr>SRTF_queue := popped\<rparr>"
  let ?t2 = "(print t ''OS: selecting next process'')\<lparr>SRTF_queue := popped\<rparr>"
  let ?p = "snd (srtf_select c top_program)"
  note e = process_operation_program [of ?s2 ?p ?t2]
  have qs: "SRTF_queue s3 = popped" if "process_operation ?s2 ?p = Inr (s3, p1)" for s3 p1
    using frame_SRTF_queue [OF process_operation_frame [OF that]] by simp
  have qt: "SRTF_queue t3 = popped" if "process_operation ?t2 ?p = Inr (t3, p1)" for t3 p1
    using frame_SRTF_queue [OF process_operation_frame [OF that]] by simp
  show ?thesis
  proof (cases "process_operation ?s2 ?p")
    case (Inl a)
    with e have "process_operation ?t2 ?p = Inl a"
      by (auto split: sum.splits)
    with Inl Cons assms show ?thesis
      by (simp add: srtf_iteration_def Let_def case_prod_beta)
  next
    case (Inr b)
    obtain s3 p1 where b: "b = (s3, p1)" by (cases b)
    with e Inr obtain t3 where t: "process_operation ?t2 ?p = Inr (t3, p1)"
      by (auto split: sum.splits)
    from qs Inr b have "SRTF_queue s3 = popped" by simp
    moreover from qt t have "SRTF_queue t3 = popped" by simp
    ultimately show ?thesis
      using Inr b t Cons assms
      by (simp add: srtf_iteration_def Let_def case_prod_beta srtf_finish_def)
  qed
qed

lemma srtf_dispatches_queue_only:
  "SRTF_queue t = SRTF_queue s \<Longrightarrow> srtf_dispatches t c = srtf_dispatches s c"
proof (induction s c arbitrary: t rule: srtf_dispatches.induct)
  case (1 s c)
  show ?case
  proof (cases "SRTF_queue s")
    case Nil
    with "1.prems" show ?thesis
      by (simp add: srtf_dispatches.simps [of s c] srtf_dispatches.simps [of t c])
  next
    case (Cons top_program popped)
    note e = srtf_iteration_queue_only [OF "1.prems" [symmetric], of c]
    show ?thesis
    proof (cases "srtf_iteration s c")
      case (Inl a)
      with e have "\<exists>a'. srtf_iteration t c = Inl a'"
        by (auto split: sum.splits)
      with Inl Cons "1.prems" show ?thesis
        by (auto simp: srtf_dispatches.simps [of s c] srtf_dispatches.simps [of t c])
    next
      case (Inr b)
      obtain s1 c1 where b: "b = (s1, c1)" by (cases b)
      with e Inr obtain t1 where t: "srtf_iteration t c = Inr (t1, c1)"
        and q: "SRTF_queue t1 = SRTF_queue s1"
        by (auto split: sum.splits)
      from "1.IH" [OF Cons Inr [unfolded b] refl q] show ?thesis
        using Cons "1.prems" Inr b t
        by (simp add: srtf_dispatches.simps [of s c] srtf_dispatches.simps [of t c])
    qed
  qed
qed


lemma srtf_prepared_queue:
  assumes "SRTF_queue s = []"
  shows "SRTF_queue (srtf_prepared s)
         = sort_key running_time (map (\<lambda>p. p\<lparr>state := READY\<rparr>) (programs s))"
proof -
  have "SRTF_queue (print (print s ''Simulator program starting'') ''OS: preparing all processes'')
        = []"
    using assms by (simp add: print_def)
  from srtf_admit_sort_key [OF this, of "programs s"] show ?thesis
    by (simp add: srtf_prepared_def Let_def print_def)
qed

lemma run_srtf:
  assumes "schedulingCode s \<noteq> ''FIFO''"
  shows "run s = (case srtf_loop (srtf_prepared s) 0 of
                    Inl e \<Rightarrow> Inl e
                  | Inr s2 \<Rightarrow> Inr (print s2 ''Simulator program ending''))"
proof -
  have "schedulingCode (print s ''Simulator program starting'') \<noteq> ''FIFO''"
    using assms by (simp add: print_def)
  then show ?thesis
    by (simp add: run_def srtf_prepared_def Let_def)
qed

subsection \<open>The FIFO loop\<close>







lemma print_grows: "\<exists>msgs. printed (print s m) = printed s @ msgs"
  by (simp add: print_def)





subsection \<open>What the loader reads\<close>

text \<open>
  The three stream calls only consume, and a stream that is no longer good stays so. The
  loop over the programs can therefore only end on a good stream whose next character is
  \<^verbatim>\<open>S\<close>, and what it has read is a prefix of what it was given.
\<close>

lemma getline_cases:
  assumes "getline fin input delim = (fin', input')"
  shows "\<not> good fin \<and> fin' = fin \<and> input' = input
       \<or> good fin \<and> \<not> good fin' \<and> buffer fin' = [] \<and> input' = buffer fin
       \<or> good fin \<and> good fin' \<and> buffer fin = input' @ delim # buffer fin'"
proof (cases "good fin")
  case False
  then show ?thesis using assms by (simp add: getline_def)
next
  case True
  show ?thesis
  proof (cases "dropWhile (\<lambda>c. c \<noteq> delim) (buffer fin)")
    case Nil
    have "getline fin input delim = (\<lparr>buffer = [], good = False\<rparr>, buffer fin)"
      unfolding getline_def Nil using True by simp
    then show ?thesis using assms True by auto
  next
    case (Cons d rest)
    then have "d = delim"
      using hd_dropWhile [of "\<lambda>c. c \<noteq> delim" "buffer fin"] by auto
    moreover have "buffer fin = takeWhile (\<lambda>c. c \<noteq> delim) (buffer fin) @ d # rest"
      using Cons takeWhile_dropWhile_id [of "\<lambda>c. c \<noteq> delim" "buffer fin"] by simp
    moreover have "getline fin input delim
        = (\<lparr>buffer = rest, good = True\<rparr>, takeWhile (\<lambda>c. c \<noteq> delim) (buffer fin))"
      unfolding getline_def Cons using True by simp
    ultimately show ?thesis
      using assms True by auto
  qed
qed

lemma ws_cases:
  "\<not> good fin \<and> ws fin = fin
   \<or> good fin \<and> (\<exists>sp. buffer fin = sp @ buffer (ws fin) \<and> (\<forall>c \<in> set sp. isspace c)) \<and>
       good (ws fin) = (buffer (ws fin) \<noteq> [])"
proof (cases "good fin")
  case False
  then show ?thesis by (simp add: ws_def)
next
  case True
  have "buffer fin = takeWhile isspace (buffer fin) @ dropWhile isspace (buffer fin)"
    by simp
  moreover have "\<forall>c \<in> set (takeWhile isspace (buffer fin)). isspace c"
    by (auto dest: set_takeWhileD)
  ultimately show ?thesis
    using True
    by (auto simp: ws_def Let_def intro!: exI [of _ "takeWhile isspace (buffer fin)"])
qed

lemma peek_cases:
  assumes "peek fin = (c, fin')"
  shows "buffer fin' = buffer fin \<and> (good fin' \<longrightarrow> good fin) \<and>
         (c = Some CHR ''S'' \<longrightarrow> fin' = fin \<and> good fin \<and> (\<exists>rest. buffer fin = CHR ''S'' # rest))"
  using assms by (auto simp: peek_def split: if_splits list.splits)

lemma read_program_stream:
  "read_program fuel s fin input operation p = Some (Inr (fin', input', operation', p')) \<Longrightarrow>
   (\<exists>pre. buffer fin = pre @ buffer fin') \<and> (good fin' \<longrightarrow> good fin)"
proof (induction fuel arbitrary: fin input operation p)
  case 0
  then show ?case by simp
next
  case (Suc fuel)
  obtain fin1 input1 where g: "getline fin input CHR '';'' = (fin1, input1)"
    by (cases "getline fin input CHR '';''")
  from Suc.prems g obtain operation1 where
    po: "parse_operation s operation input1 = Inr operation1"
    by (auto split: sum.splits)
  have g': "(\<exists>pre. buffer fin = pre @ buffer fin1) \<and> (good fin1 \<longrightarrow> good fin)"
    using getline_cases [OF g] by auto
  have w: "(\<exists>pre. buffer fin1 = pre @ buffer (ws fin1)) \<and> (good (ws fin1) \<longrightarrow> good fin1)"
    using ws_cases [of fin1] by auto
  show ?case
  proof (cases "input1 = ''A(end)0''")
    case True
    then have "fin' = ws fin1"
      using Suc.prems g po by (auto simp: Let_def)
    then show ?thesis using g' w by (metis append.assoc)
  next
    case False
    then have "read_program fuel s (ws fin1) input1 operation1 (add_operation p operation1)
               = Some (Inr (fin', input', operation', p'))"
      using Suc.prems g po by (simp add: Let_def)
    from Suc.IH [OF this] show ?thesis using g' w by (metis append.assoc)
  qed
qed

lemma read_programs_stream:
  "read_programs fuel s fin input operation = Some (Inr (s', fin', input')) \<Longrightarrow>
   (\<exists>pre. buffer fin = pre @ buffer fin') \<and> good fin \<and> good fin' \<and>
   (\<exists>rest. buffer fin' = CHR ''S'' # rest)"
proof (induction fuel arbitrary: s fin input operation)
  case 0
  then show ?case by simp
next
  case (Suc fuel)
  obtain c fin1 where pk: "peek fin = (c, fin1)"
    by (cases "peek fin")
  note pc = peek_cases [OF pk]
  show ?case
  proof (cases "c = Some CHR ''S''")
    case True
    then have "fin' = fin1" using Suc.prems pk by simp
    then show ?thesis using pc True by auto
  next
    case False
    with Suc.prems pk obtain fin2 input1 operation1 newProgram where
      rp: "read_program fuel s fin1 input operation new_Program
           = Some (Inr (fin2, input1, operation1, newProgram))" and
      rest: "read_programs fuel (s\<lparr>programs := programs s @ [newProgram]\<rparr>) fin2 input1 operation1
             = Some (Inr (s', fin', input'))"
      by (auto split: option.splits sum.splits)
    from Suc.IH [OF rest] read_program_stream [OF rp] pc show ?thesis
      by (metis append.assoc)
  qed
qed

lemma parse_operation_cycles:
  "parse_operation s operation token = Inr x \<Longrightarrow>
   stoi (drop (nat (find_char token CHR '')'' + 1)) token) = Inr (cycles x)"
  by (auto simp: parse_operation_def set_operation_cycle_time_def Let_def
      split: list.splits sum.splits if_splits)

lemma read_program_parsed:
  "read_program fuel s fin input operation p = Some (Inr (fin', input', operation', p')) \<Longrightarrow>
   \<forall>x \<in> set (operations p). \<exists>op token. parse_operation s op token = Inr x \<Longrightarrow>
   \<forall>x \<in> set (operations p'). \<exists>op token. parse_operation s op token = Inr x"
proof (induction fuel arbitrary: fin input operation p)
  case 0
  then show ?case by simp
next
  case (Suc fuel)
  obtain fin1 input1 where g: "getline fin input CHR '';'' = (fin1, input1)"
    by (cases "getline fin input CHR '';''")
  from Suc.prems(1) g obtain operation1 where
    po: "parse_operation s operation input1 = Inr operation1"
    by (auto split: sum.splits)
  have inv: "\<forall>x \<in> set (operations (add_operation p operation1)).
               \<exists>op token. parse_operation s op token = Inr x"
    using Suc.prems(2) po by (auto simp: add_operation_fields)
  show ?case
  proof (cases "input1 = ''A(end)0''")
    case True
    then have "p' = add_operation p operation1"
      using Suc.prems(1) g po by (auto simp: Let_def)
    then show ?thesis using inv by simp
  next
    case False
    then have "read_program fuel s (ws fin1) input1 operation1 (add_operation p operation1)
               = Some (Inr (fin', input', operation', p'))"
      using Suc.prems(1) g po by (simp add: Let_def)
    from Suc.IH [OF this inv] show ?thesis .
  qed
qed

lemma set_operation_cycle_time_programs:
  "set_operation_cycle_time (s\<lparr>programs := ps\<rparr>) operation = set_operation_cycle_time s operation"
  by (simp add: set_operation_cycle_time_def)

lemma parse_operation_programs:
  "parse_operation (s\<lparr>programs := ps\<rparr>) operation token = parse_operation s operation token"
  by (simp add: parse_operation_def set_operation_cycle_time_programs
      cong: list.case_cong sum.case_cong)

lemma read_programs_parsed:
  "read_programs fuel s fin input operation = Some (Inr (s', fin', input')) \<Longrightarrow>
   \<exists>new. programs s' = programs s @ new \<and>
     (\<forall>p \<in> set new. \<forall>x \<in> set (operations p). \<exists>op token. parse_operation s op token = Inr x)"
proof (induction fuel arbitrary: s fin input operation)
  case 0
  then show ?case by simp
next
  case (Suc fuel)
  obtain c fin1 where pk: "peek fin = (c, fin1)"
    by (cases "peek fin")
  show ?case
  proof (cases "c = Some CHR ''S''")
    case True
    then have "s' = s" using Suc.prems pk by simp
    then show ?thesis by simp
  next
    case False
    with Suc.prems pk obtain fin2 input1 operation1 newProgram where
      rp: "read_program fuel s fin1 input operation new_Program
           = Some (Inr (fin2, input1, operation1, newProgram))" and
      rest: "read_programs fuel (s\<lparr>programs := programs s @ [newProgram]\<rparr>) fin2 input1 operation1
             = Some (Inr (s', fin', input'))"
      by (auto split: option.splits sum.splits)
    have n: "\<forall>x \<in> set (operations newProgram). \<exists>op token. parse_operation s op token = Inr x"
      using read_program_parsed [OF rp] by (simp add: new_Program_def)
    from Suc.IH [OF rest] obtain new where
      "programs s' = (programs s @ [newProgram]) @ new"
      "\<forall>p \<in> set new. \<forall>x \<in> set (operations p). \<exists>op token. parse_operation s op token = Inr x"
      by (auto simp: parse_operation_programs)
    with n show ?thesis
      by (intro exI [of _ "newProgram # new"]) simp
  qed
qed

lemma getline_good_input:
  "good fin \<Longrightarrow> snd (getline fin input delim) = takeWhile (\<lambda>c. c \<noteq> delim) (buffer fin)"
proof (cases "dropWhile (\<lambda>c. c \<noteq> delim) (buffer fin)")
  case Nil
  assume "good fin"
  have t: "takeWhile (\<lambda>c. c \<noteq> delim) (buffer fin) = buffer fin"
    using Nil by (simp add: takeWhile_eq_all_conv)
  have "getline fin input delim = (\<lparr>buffer = [], good = False\<rparr>, buffer fin)"
    unfolding getline_def Nil using \<open>good fin\<close> by simp
  then show ?thesis by (simp add: t)
next
  case (Cons d rest)
  assume "good fin"
  then have "getline fin input delim
      = (\<lparr>buffer = rest, good = True\<rparr>, takeWhile (\<lambda>c. c \<noteq> delim) (buffer fin))"
    unfolding getline_def Cons by simp
  then show ?thesis by simp
qed

lemma load_meta_data_text:
  assumes "load_meta_data fuel files operation s filePath = Some (Inr s')"
  shows "\<exists>contents body sp tail.
      files filePath = Some contents
    \<and> contents = ''Start Program Meta-Data Code:'' @ [CHR 0x0A] @ ''S(start)0;'' @ body
        @ ''S(end)0.'' @ sp @ ''End Program Meta-Data Code'' @ tail
    \<and> (\<forall>c \<in> set sp. isspace c) \<and> (tail = [] \<or> hd tail = CHR ''.'')"
proof -
  let ?P = "''Start Program Meta-Data Code:'' @ [CHR 0x0A] @ ''S(start)0''"
  from assms obtain contents where c: "files filePath = Some contents"
    by (auto simp: load_meta_data_def split: option.splits)
  obtain fin1 input1 where g1: "getline \<lparr>buffer = contents, good = True\<rparr> [] CHR '';'' = (fin1, input1)"
    by (cases "getline \<lparr>buffer = contents, good = True\<rparr> [] CHR '';''")
  from assms c g1 have i1: "input1 = ?P"
    by (auto simp: load_meta_data_def Let_def split: if_splits)
  from assms c g1 i1 obtain s1 fin3 input2 where
    rp: "read_programs fuel s (ws fin1) input1 operation = Some (Inr (s1, fin3, input2))"
    by (auto simp: load_meta_data_def Let_def split: if_splits option.splits sum.splits)
  obtain fin4 input3 where g2: "getline fin3 input2 CHR ''.'' = (fin4, input3)"
    by (cases "getline fin3 input2 CHR ''.''")
  obtain fin6 input4 where g3: "getline (ws fin4) input3 CHR ''.'' = (fin6, input4)"
    by (cases "getline (ws fin4) input3 CHR ''.''")
  from assms c g1 i1 rp g2 g3 have i3: "input3 = ''S(end)0''" and
    i4: "input4 = ''End Program Meta-Data Code''"
    by (auto simp: load_meta_data_def Let_def split: if_splits)
  from read_programs_stream [OF rp] obtain pre where
    gw: "good (ws fin1)" and b2: "buffer (ws fin1) = pre @ buffer fin3" and g3': "good fin3"
    by blast
  have gf1: "good fin1" using ws_cases [of fin1] gw by auto
  then obtain sp0 where b1: "buffer fin1 = sp0 @ buffer (ws fin1)"
    using ws_cases [of fin1] by auto
  have c1: "contents = input1 @ CHR '';'' # buffer fin1"
    using getline_cases [OF g1] gf1 by auto
  have ne: "input4 \<noteq> input3" by (simp add: i3 i4)
  have gw4: "good (ws fin4)"
    using getline_cases [OF g3] ne by auto
  then have gf4: "good fin4" using ws_cases [of fin4] by auto
  then have b3: "buffer fin3 = input3 @ CHR ''.'' # buffer fin4"
    using getline_cases [OF g2] by auto
  from gf4 obtain sp where b4: "buffer fin4 = sp @ buffer (ws fin4)" and
    sp: "\<forall>c \<in> set sp. isspace c"
    using ws_cases [of fin4] by auto
  from getline_cases [OF g3] gw4 obtain tail where
    b5: "buffer (ws fin4) = input4 @ tail" and tl: "tail = [] \<or> hd tail = CHR ''.''"
    by auto
  have "contents = ''Start Program Meta-Data Code:'' @ [CHR 0x0A] @ ''S(start)0;'' @ (sp0 @ pre)
        @ ''S(end)0.'' @ sp @ ''End Program Meta-Data Code'' @ tail"
    by (simp add: c1 i1 b1 b2 b3 i3 b4 b5 i4)
  with c sp tl show ?thesis by blast
qed

lemma load_meta_data_preamble:
  assumes "files filePath = Some contents"
    and "takeWhile (\<lambda>c. c \<noteq> CHR '';'') contents
         \<noteq> ''Start Program Meta-Data Code:'' @ [CHR 0x0A] @ ''S(start)0''"
  shows "load_meta_data fuel files operation s filePath
         = Some (Inl (runtime_error
             (''Error: Incorrect meta-data file format:             Simulator start flag is missing''
              @ [CHR 0x0A])))"
proof -
  have "snd (getline \<lparr>buffer = contents, good = True\<rparr> [] CHR '';'')
        = takeWhile (\<lambda>c. c \<noteq> CHR '';'') contents"
    using getline_good_input [of "\<lparr>buffer = contents, good = True\<rparr>"] by simp
  then show ?thesis
    using assms by (simp add: load_meta_data_def Let_def case_prod_beta)
qed

text \<open>
  At the end of the file the loops do not stop: once the stream is no longer good,
  \<^verbatim>\<open>getline\<close> leaves the last token in place, and if that token is \<^verbatim>\<open>A(end)0\<close> the outer
  loop stores one more program on every turn. A file that ends after a program, before
  \<^verbatim>\<open>S(end)0\<close>, exhausts any amount of fuel.
\<close>

lemma read_programs_at_end_of_file:
  "\<not> good fin \<Longrightarrow> read_programs fuel s fin ''A(end)0'' operation = None"
proof (induction fuel arbitrary: s operation)
  case 0
  then show ?case by simp
next
  case (Suc fuel)
  have pk: "peek fin = (None, fin)"
    using Suc.prems by (simp add: peek_def)
  show ?case
  proof (cases fuel)
    case 0
    then show ?thesis using pk by simp
  next
    case (Suc n)
    have g: "getline fin ''A(end)0'' CHR '';'' = (fin, ''A(end)0'')"
      using Suc.prems by (simp add: getline_def)
    have w: "ws fin = fin"
      using Suc.prems by (simp add: ws_def)
    obtain operation1 where po: "parse_operation s operation ''A(end)0'' = Inr operation1"
      by (simp add: parse_operation_def find_char_def substr_def stoi_def isdigit_def
          isspace_def digits_value_def set_operation_cycle_time_def Let_def numeral_nat)
    have "read_program fuel s fin ''A(end)0'' operation new_Program
          = Some (Inr (fin, ''A(end)0'', operation1, add_operation new_Program operation1))"
      using g w po by (simp add: Suc Let_def)
    then show ?thesis
      using pk Suc.IH [OF Suc.prems] by simp
  qed
qed

lemma truncated_meta_data_never_returns:
  "load_meta_data fuel
     [''meta'' \<mapsto> ''Start Program Meta-Data Code:'' @ [CHR 0x0A] @ ''S(start)0; A(start)0; A(end)0;'']
     operation example_simulator ''meta'' = None"
proof -
  have "read_programs fuel example_simulator \<lparr>buffer = ''A(start)0; A(end)0;'', good = True\<rparr>
          (''Start Program Meta-Data Code:'' @ [CHR 0x0A] @ ''S(start)0'') operation = None"
  proof (cases fuel)
    case 0
    then show ?thesis by simp
  next
    case (Suc n)
    show ?thesis
    proof (cases n)
      case 0
      then show ?thesis by (simp add: Suc peek_def)
    next
      case (Suc m)
      show ?thesis
      proof (cases m)
        case 0
        then show ?thesis
          by (simp add: \<open>fuel = Suc n\<close> Suc peek_def getline_def ws_def isspace_def
              parse_operation_def find_char_def substr_def stoi_def isdigit_def
              digits_value_def set_operation_cycle_time_def Let_def numeral_nat)
      next
        case (Suc k)
        have "read_program n example_simulator \<lparr>buffer = ''A(start)0; A(end)0;'', good = True\<rparr>
                (''Start Program Meta-Data Code:'' @ [CHR 0x0A] @ ''S(start)0'') operation new_Program
              = Some (Inr (\<lparr>buffer = [], good = False\<rparr>, ''A(end)0'',
                  operation\<lparr>type := CHR ''A'', description := ''end'', cycles := 0, cycleTime := 0\<rparr>,
                  add_operation
                    (add_operation new_Program
                       (operation\<lparr>type := CHR ''A'', description := ''start'', cycles := 0,
                          cycleTime := 0\<rparr>))
                    (operation\<lparr>type := CHR ''A'', description := ''end'', cycles := 0,
                       cycleTime := 0\<rparr>)))"
          by (simp add: \<open>n = Suc m\<close> Suc getline_def ws_def isspace_def
              parse_operation_def find_char_def substr_def stoi_def isdigit_def
              digits_value_def set_operation_cycle_time_def Let_def numeral_nat)
        then show ?thesis
          by (simp add: \<open>fuel = Suc n\<close> peek_def read_programs_at_end_of_file)
      qed
    qed
  qed
  then show ?thesis
    by (simp add: load_meta_data_def getline_def ws_def isspace_def Let_def)
qed

subsection \<open>What the loader does with a run of well-formed tokens\<close>

lemma getline_token:
  assumes "delim \<notin> set t"
  shows "getline \<lparr>buffer = t @ delim # rest, good = True\<rparr> input delim
         = (\<lparr>buffer = rest, good = True\<rparr>, t)"
proof -
  have a: "\<forall>x \<in> set t. x \<noteq> delim"
    using assms by auto
  then have "dropWhile (\<lambda>c. c \<noteq> delim) (t @ delim # rest) = delim # rest"
    by (simp add: dropWhile_append3)
  moreover have "takeWhile (\<lambda>c. c \<noteq> delim) (t @ delim # rest) = t"
    using a by (simp add: takeWhile_tail)
  ultimately show ?thesis
    by (simp add: getline_def)
qed

lemma ws_skip:
  assumes "\<forall>c \<in> set w. isspace c" and "rest \<noteq> []" and "\<not> isspace (hd rest)"
  shows "ws \<lparr>buffer = w @ rest, good = True\<rparr> = \<lparr>buffer = rest, good = True\<rparr>"
proof -
  have "dropWhile isspace (w @ rest) = dropWhile isspace rest"
    using assms(1) by (simp add: dropWhile_append2)
  also have "\<dots> = rest"
    using assms(2,3) by (cases rest) simp_all
  finally show ?thesis
    using assms(2) by (simp add: ws_def Let_def)
qed

lemma peek_char:
  "rest \<noteq> [] \<Longrightarrow> peek \<lparr>buffer = rest, good = True\<rparr> = (Some (hd rest), \<lparr>buffer = rest, good = True\<rparr>)"
  by (cases rest) (simp_all add: peek_def)

lemma well_formed_token_parsed:
  assumes "well_formed_token t"
  shows "\<exists>y. parse_operation s operation t = Inr y"
proof -
  from assms obtain n where n: "stoi (drop (nat (find_char t CHR '')'' + 1)) t) = Inr n"
    by (auto simp: well_formed_token_def split: sum.splits)
  from assms obtain front rest where t: "t = front # rest" and f: "front \<in> set ''PIOA''"
    by (cases t) (auto simp: well_formed_token_def)
  from assms have "\<exists>d. substr t 2 (find_char t CHR '')'' - 2) = Inr d"
    by (simp add: substr_def well_formed_token_def)
  then obtain d where d: "substr t 2 (find_char t CHR '')'' - 2) = Inr d"
    by blast
  have "\<exists>y. set_operation_cycle_time s (operation\<lparr>type := front, description := d, cycles := n\<rparr>) = Inr y"
    using f by (auto simp: set_operation_cycle_time_def)
  then show ?thesis
    using n d unfolding parse_operation_def Let_def t [symmetric]
    by (simp add: t)
qed

lemma unparsable_count_rejected:
  assumes "2 \<le> length t" and "stoi (drop (nat (find_char t CHR '')'' + 1)) t) = Inl e"
  shows "parse_operation s operation t = Inl e"
proof -
  from assms(1) obtain front rest where t: "t = front # rest"
    by (cases t) auto
  from assms(1) have "\<exists>d. substr t 2 (find_char t CHR '')'' - 2) = Inr d"
    by (simp add: substr_def)
  then obtain d where d: "substr t 2 (find_char t CHR '')'' - 2) = Inr d"
    by blast
  show ?thesis
    using assms(2) d unfolding parse_operation_def Let_def t [symmetric]
    by (simp add: t)
qed

lemma well_formed_token_front:
  "well_formed_token t \<Longrightarrow> t \<noteq> [] \<and> \<not> isspace (hd t) \<and> hd t \<noteq> CHR ''S''"
  by (auto simp: well_formed_token_def isspace_def)

lemma tokens_text_front:
  assumes "\<forall>(t, w) \<in> set tws. well_formed_token t \<and> (\<forall>c \<in> set w. isspace c)"
    and "rest \<noteq> []" and "\<not> isspace (hd rest)" and "hd rest \<noteq> CHR ''S''"
  shows "tokens_text tws @ rest \<noteq> [] \<and> \<not> isspace (hd (tokens_text tws @ rest))
         \<and> hd (tokens_text tws @ rest) \<noteq> CHR ''S''"
proof (cases tws)
  case Nil
  then show ?thesis using assms by (simp add: tokens_text_def)
next
  case (Cons x xs)
  obtain t w where x: "x = (t, w)" by (cases x)
  with Cons assms(1) have "well_formed_token t" by simp
  from well_formed_token_front [OF this] show ?thesis
    by (simp add: Cons x tokens_text_def)
qed


lemma tokens_text_Cons:
  "tokens_text ((t, w) # tws) @ rest = t @ CHR '';'' # (w @ tokens_text tws @ rest)"
  by (simp add: tokens_text_def)

lemma read_program_token:
  assumes "well_formed_token t" and "\<forall>c \<in> set w. isspace c"
    and "rest \<noteq> []" and "\<not> isspace (hd rest)"
  shows "\<exists>y. parse_operation s operation t = Inr y \<and>
     read_program (Suc fuel) s \<lparr>buffer = t @ CHR '';'' # (w @ rest), good = True\<rparr> input operation p
     = (if t \<noteq> ''A(end)0'' then
          read_program fuel s \<lparr>buffer = rest, good = True\<rparr> t y (add_operation p y)
        else Some (Inr (\<lparr>buffer = rest, good = True\<rparr>, t, y, add_operation p y)))"
proof -
  from well_formed_token_parsed [OF assms(1)] obtain y where
    y: "parse_operation s operation t = Inr y"
    by blast
  have g: "getline \<lparr>buffer = t @ CHR '';'' # (w @ rest), good = True\<rparr> input CHR '';''
           = (\<lparr>buffer = w @ rest, good = True\<rparr>, t)"
    using assms(1) by (intro getline_token) (simp add: well_formed_token_def)
  note k = ws_skip [OF assms(2,3,4)]
  show ?thesis
    using y by (simp add: g k Let_def)
qed

lemma takeWhile_token:
  assumes "delim \<notin> set t" and "rest = [] \<or> hd rest = delim"
  shows "takeWhile (\<lambda>c. c \<noteq> delim) (t @ rest) = t"
proof -
  have a: "\<forall>x \<in> set t. x \<noteq> delim"
    using assms(1) by auto
  show ?thesis
  proof (cases rest)
    case Nil
    with a show ?thesis by simp
  next
    case (Cons d ds)
    with assms(2) a show ?thesis by (simp add: takeWhile_tail)
  qed
qed

lemma read_program_unparsable:
  assumes "2 \<le> length bad" and "stoi (drop (nat (find_char bad CHR '')'' + 1)) bad) = Inl e"
    and "CHR '';'' \<notin> set bad" and "rest = [] \<or> hd rest = CHR '';''"
  shows "read_program (Suc fuel) s \<lparr>buffer = bad @ rest, good = True\<rparr> input operation p
         = Some (Inl e)"
proof -
  have "snd (getline \<lparr>buffer = bad @ rest, good = True\<rparr> input CHR '';'') = bad"
    using takeWhile_token [OF assms(3,4)] by (simp add: getline_good_input)
  then show ?thesis
    using unparsable_count_rejected [OF assms(1,2)]
    by (simp add: Let_def case_prod_beta)
qed

lemma read_tokens_abort:
  assumes "2 \<le> length bad" and "stoi (drop (nat (find_char bad CHR '')'' + 1)) bad) = Inl e"
    and "CHR '';'' \<notin> set bad" and "\<not> isspace (hd bad)" and "hd bad \<noteq> CHR ''S''"
    and "rest = [] \<or> hd rest = CHR '';''"
  shows "\<forall>(t, w) \<in> set tws. well_formed_token t \<and> (\<forall>c \<in> set w. isspace c) \<Longrightarrow>
     length tws < fi \<Longrightarrow> length tws < fo \<Longrightarrow>
     (case read_program fi s \<lparr>buffer = tokens_text tws @ bad @ rest, good = True\<rparr>
             input operation p of
        None \<Rightarrow> None
      | Some (Inl e) \<Rightarrow> Some (Inl e)
      | Some (Inr (fin2, input1, operation1, newProgram)) \<Rightarrow>
          read_programs fo (s\<lparr>programs := programs s @ [newProgram]\<rparr>) fin2 input1 operation1)
     = Some (Inl e)"
proof (induction tws arbitrary: fi fo s input operation p)
  case Nil
  then obtain f where "fi = Suc f"
    by (cases fi) auto
  then show ?case
    using read_program_unparsable [OF assms(1,2,3,6)] by (simp add: tokens_text_def)
next
  case (Cons x tws)
  obtain t w where x: "x = (t, w)"
    by (cases x)
  from Cons.prems(2) obtain f where fi: "fi = Suc f" and f: "length tws < f"
    by (cases fi) auto
  from Cons.prems(3) obtain fo' where fo: "fo = Suc fo'" and fo': "length tws < fo'"
    by (cases fo) auto
  from Cons.prems(1) have wf: "well_formed_token t" "\<forall>c \<in> set w. isspace c"
    and rest: "\<forall>(t, w) \<in> set tws. well_formed_token t \<and> (\<forall>c \<in> set w. isspace c)"
    by (auto simp: x)
  let ?rest = "tokens_text tws @ bad @ rest"
  from assms(1) have b: "bad @ rest \<noteq> []" "hd (bad @ rest) = hd bad"
    by (cases bad; simp)+
  from tokens_text_front [OF rest b(1)] assms(4,5) b(2) have
    r: "?rest \<noteq> []" "\<not> isspace (hd ?rest)" "hd ?rest \<noteq> CHR ''S''"
    by simp_all
  from read_program_token [OF wf r(1,2), of s operation f input p] obtain y where
    y: "read_program (Suc f) s \<lparr>buffer = t @ CHR '';'' # (w @ ?rest), good = True\<rparr> input operation p
     = (if t \<noteq> ''A(end)0'' then
          read_program f s \<lparr>buffer = ?rest, good = True\<rparr> t y (add_operation p y)
        else Some (Inr (\<lparr>buffer = ?rest, good = True\<rparr>, t, y, add_operation p y)))"
    by blast
  show ?case
  proof (cases "t = ''A(end)0''")
    case False
    with y Cons.IH [OF rest f, of fo s t y "add_operation p y"] Cons.prems(3) show ?thesis
      unfolding x fi tokens_text_Cons
      by (simp add: fo)
  next
    case True
    from Cons.IH [OF rest fo' fo', of "s\<lparr>programs := programs s @ [add_operation p y]\<rparr>"
        t y new_Program]
    show ?thesis
      unfolding x fi tokens_text_Cons y fo
      using True r(3) by (simp add: peek_char [OF r(1)])
  qed
qed

lemma read_tokens_complete:
  assumes "rest \<noteq> []" and "hd rest = CHR ''S''"
  shows "\<forall>(t, w) \<in> set tws. well_formed_token t \<and> (\<forall>c \<in> set w. isspace c) \<Longrightarrow>
     tws \<noteq> [] \<Longrightarrow> fst (last tws) = ''A(end)0'' \<Longrightarrow>
     length tws < fi \<Longrightarrow> length tws < fo \<Longrightarrow>
     \<exists>s' input'.
     (case read_program fi s \<lparr>buffer = tokens_text tws @ rest, good = True\<rparr>
             input operation p of
        None \<Rightarrow> None
      | Some (Inl e) \<Rightarrow> Some (Inl e)
      | Some (Inr (fin2, input1, operation1, newProgram)) \<Rightarrow>
          read_programs fo (s\<lparr>programs := programs s @ [newProgram]\<rparr>) fin2 input1 operation1)
     = Some (Inr (s', \<lparr>buffer = rest, good = True\<rparr>, input'))
     \<and> length (programs s')
         = length (programs s) + length [tw \<leftarrow> tws. fst tw = ''A(end)0'']"
proof (induction tws arbitrary: fi fo s input operation p)
  case Nil
  then show ?case by simp
next
  case (Cons x tws)
  obtain t w where x: "x = (t, w)"
    by (cases x)
  from Cons.prems(4) obtain f where fi: "fi = Suc f" and f: "length tws < f \<or> tws = []"
    by (cases fi) auto
  from Cons.prems(5) obtain fo' where fo: "fo = Suc fo'" and fo': "length tws < fo' \<or> tws = []"
    by (cases fo) auto
  from Cons.prems(1) have wf: "well_formed_token t" "\<forall>c \<in> set w. isspace c"
    and rest: "\<forall>(t, w) \<in> set tws. well_formed_token t \<and> (\<forall>c \<in> set w. isspace c)"
    by (auto simp: x)
  let ?rest = "tokens_text tws @ rest"
  have sp: "\<not> isspace (hd rest)"
    using assms(2) by (simp add: isspace_def)
  have r: "?rest \<noteq> []" "\<not> isspace (hd ?rest)"
  proof -
    show "?rest \<noteq> []" using assms(1) by simp
    show "\<not> isspace (hd ?rest)"
    proof (cases tws)
      case Nil
      then show ?thesis using sp by (simp add: tokens_text_def)
    next
      case (Cons a list)
      obtain t' w' where "a = (t', w')" by (cases a)
      with Cons rest well_formed_token_front [of t'] show ?thesis
        by (simp add: tokens_text_def)
    qed
  qed
  from read_program_token [OF wf r(1,2), of s operation f input p] obtain y where
    y: "read_program (Suc f) s \<lparr>buffer = t @ CHR '';'' # (w @ ?rest), good = True\<rparr> input operation p
     = (if t \<noteq> ''A(end)0'' then
          read_program f s \<lparr>buffer = ?rest, good = True\<rparr> t y (add_operation p y)
        else Some (Inr (\<lparr>buffer = ?rest, good = True\<rparr>, t, y, add_operation p y)))"
    by blast
  show ?case
  proof (cases "tws = []")
    case True
    with Cons.prems(3) have t: "t = ''A(end)0''"
      by (simp add: x)
    show ?thesis
      unfolding x fi tokens_text_Cons y fo
      using t True assms by (simp add: peek_char tokens_text_def)
  next
    case ne: False
    with Cons.prems(3) have l: "fst (last tws) = ''A(end)0''"
      by simp
    from ne f have f': "length tws < f"
      by simp
    show ?thesis
    proof (cases "t = ''A(end)0''")
      case False
      with y Cons.IH [OF rest ne l f', of fo s t y "add_operation p y"] Cons.prems(5) show ?thesis
        unfolding x fi tokens_text_Cons
        by (simp add: fo)
    next
      case True
      have h: "hd ?rest \<noteq> CHR ''S''"
      proof (cases tws)
        case Nil
        with ne show ?thesis by simp
      next
        case (Cons a list)
        obtain t' w' where "a = (t', w')" by (cases a)
        with Cons rest well_formed_token_front [of t'] show ?thesis
          by (simp add: tokens_text_def)
      qed
      from ne fo' have lt: "length tws < fo'"
        by simp
      from Cons.IH [OF rest ne l lt lt, of "s\<lparr>programs := programs s @ [add_operation p y]\<rparr>"
          t y new_Program]
      show ?thesis
        unfolding x fi tokens_text_Cons y fo
        using True h by (simp add: peek_char [OF r(1)])
    qed
  qed
qed


lemma read_programs_abort:
  assumes "2 \<le> length bad" and "stoi (drop (nat (find_char bad CHR '')'' + 1)) bad) = Inl e"
    and "CHR '';'' \<notin> set bad" and "\<not> isspace (hd bad)" and "hd bad \<noteq> CHR ''S''"
    and "rest = [] \<or> hd rest = CHR '';''"
    and "\<forall>(t, w) \<in> set tws. well_formed_token t \<and> (\<forall>c \<in> set w. isspace c)"
    and "length tws + 2 \<le> fuel"
  shows "read_programs fuel s \<lparr>buffer = tokens_text tws @ bad @ rest, good = True\<rparr> input operation
         = Some (Inl e)"
proof -
  from assms(8) obtain f where fuel: "fuel = Suc f" and f: "length tws < f"
    by (cases fuel) auto
  from assms(1) have b: "bad @ rest \<noteq> []" "hd (bad @ rest) = hd bad"
    by (cases bad; simp)+
  from tokens_text_front [OF assms(7) b(1)] assms(4,5) b(2) have
    r: "tokens_text tws @ bad @ rest \<noteq> []" "hd (tokens_text tws @ bad @ rest) \<noteq> CHR ''S''"
    by simp_all
  from read_tokens_abort [OF assms(1-7) f f, of s input operation new_Program] r(2)
  show ?thesis
    unfolding fuel by (simp add: peek_char [OF r(1)])
qed

lemma read_programs_complete:
  assumes "rest \<noteq> []" and "hd rest = CHR ''S''"
    and "\<forall>(t, w) \<in> set tws. well_formed_token t \<and> (\<forall>c \<in> set w. isspace c)"
    and "tws = [] \<or> fst (last tws) = ''A(end)0''"
    and "length tws + 2 \<le> fuel"
  shows "\<exists>s' input'.
     read_programs fuel s \<lparr>buffer = tokens_text tws @ rest, good = True\<rparr> input operation
       = Some (Inr (s', \<lparr>buffer = rest, good = True\<rparr>, input'))
     \<and> length (programs s')
         = length (programs s) + length [tw \<leftarrow> tws. fst tw = ''A(end)0'']"
proof -
  from assms(5) obtain f where fuel: "fuel = Suc f" and f: "length tws < f"
    by (cases fuel) auto
  show ?thesis
  proof (cases "tws = []")
    case True
    then show ?thesis
      unfolding fuel using assms(1,2) by (simp add: tokens_text_def peek_char)
  next
    case False
    with assms(4) have l: "fst (last tws) = ''A(end)0''"
      by simp
    have r: "tokens_text tws @ rest \<noteq> []"
      using assms(1) by simp
    have h: "hd (tokens_text tws @ rest) \<noteq> CHR ''S''"
    proof (cases tws)
      case Nil
      with False show ?thesis by simp
    next
      case (Cons a list)
      obtain t' w' where "a = (t', w')" by (cases a)
      with Cons assms(3) well_formed_token_front [of t'] show ?thesis
        by (simp add: tokens_text_def)
    qed
    from read_tokens_complete [OF assms(1,2,3) False l f f, of s input operation new_Program] h
    show ?thesis
      unfolding fuel by (simp add: peek_char [OF r])
  qed
qed


lemma load_meta_data_after_preamble:
  assumes "files filePath
           = Some (''Start Program Meta-Data Code:'' @ [CHR 0x0A] @ ''S(start)0;'' @ w0 @ rest)"
    and "\<forall>c \<in> set w0. isspace c" and "rest \<noteq> []" and "\<not> isspace (hd rest)"
  shows "load_meta_data fuel files operation s filePath
     = (case read_programs fuel s \<lparr>buffer = rest, good = True\<rparr>
               (''Start Program Meta-Data Code:'' @ [CHR 0x0A] @ ''S(start)0'') operation of
          None \<Rightarrow> None
        | Some (Inl e) \<Rightarrow> Some (Inl e)
        | Some (Inr (s1, fin3, input2)) \<Rightarrow>
            (let (fin4, input3) = getline fin3 input2 CHR ''.'';
                 fin5 = ws fin4
             in if input3 \<noteq> ''S(end)0'' then
                  Some (Inl (runtime_error
                    (''Error: Incorrect meta-data file format:             Simulator end flag is missing'' @ [CHR 0x0A])))
                else
                  (let (fin6, input4) = getline fin5 input3 CHR ''.''
                   in if input4 \<noteq> ''End Program Meta-Data Code'' then
                        Some (Inl (runtime_error
                          (''Error: Incorrect meta-data file format:             Meta-Data file does not end after simulator operations end'' @ [CHR 0x0A])))
                      else Some (Inr s1))))"
proof -
  have c: "''Start Program Meta-Data Code:'' @ [CHR 0x0A] @ ''S(start)0;'' @ w0 @ rest
           = (''Start Program Meta-Data Code:'' @ [CHR 0x0A] @ ''S(start)0'') @ CHR '';'' # (w0 @ rest)"
    by simp
  have g: "getline \<lparr>buffer = (''Start Program Meta-Data Code:'' @ [CHR 0x0A] @ ''S(start)0'')
                              @ CHR '';'' # (w0 @ rest), good = True\<rparr> [] CHR '';''
           = (\<lparr>buffer = w0 @ rest, good = True\<rparr>,
              ''Start Program Meta-Data Code:'' @ [CHR 0x0A] @ ''S(start)0'')"
    by (rule getline_token) simp
  note k = ws_skip [OF assms(2,3,4)]
  show ?thesis
    unfolding load_meta_data_def assms(1) c option.case g Let_def prod.case k
    by simp
qed

lemma end_flag_missing:
  assumes "takeWhile (\<lambda>c. c \<noteq> CHR ''.'') rest \<noteq> ''S(end)0''"
  shows "(let (fin4, input3) = getline \<lparr>buffer = rest, good = True\<rparr> input2 CHR ''.'';
                 fin5 = ws fin4
             in if input3 \<noteq> ''S(end)0'' then
                  Some (Inl (runtime_error
                    (''Error: Incorrect meta-data file format:             Simulator end flag is missing'' @ [CHR 0x0A])))
                else
                  (let (fin6, input4) = getline fin5 input3 CHR ''.''
                   in if input4 \<noteq> ''End Program Meta-Data Code'' then
                        Some (Inl (runtime_error
                          (''Error: Incorrect meta-data file format:             Meta-Data file does not end after simulator operations end'' @ [CHR 0x0A])))
                      else Some (Inr s1)))
         = Some (Inl (runtime_error
                    (''Error: Incorrect meta-data file format:             Simulator end flag is missing'' @ [CHR 0x0A])))"
proof -
  have "snd (getline \<lparr>buffer = rest, good = True\<rparr> input2 CHR ''.'')
        = takeWhile (\<lambda>c. c \<noteq> CHR ''.'') rest"
    by (simp add: getline_good_input)
  with assms show ?thesis
    by (simp add: Let_def case_prod_beta)
qed

lemma after_end_flag:
  "(let (fin4, input3) = getline \<lparr>buffer = ''S(end)0.'' @ rest, good = True\<rparr> input2 CHR ''.'';
                 fin5 = ws fin4
             in if input3 \<noteq> ''S(end)0'' then
                  Some (Inl (runtime_error
                    (''Error: Incorrect meta-data file format:             Simulator end flag is missing'' @ [CHR 0x0A])))
                else
                  (let (fin6, input4) = getline fin5 input3 CHR ''.''
                   in if input4 \<noteq> ''End Program Meta-Data Code'' then
                        Some (Inl (runtime_error
                          (''Error: Incorrect meta-data file format:             Meta-Data file does not end after simulator operations end'' @ [CHR 0x0A])))
                      else Some (Inr s1)))
   = (if dropWhile isspace rest = []
         \<or> takeWhile (\<lambda>c. c \<noteq> CHR ''.'') (dropWhile isspace rest) \<noteq> ''End Program Meta-Data Code''
      then Some (Inl (runtime_error
                          (''Error: Incorrect meta-data file format:             Meta-Data file does not end after simulator operations end'' @ [CHR 0x0A])))
      else Some (Inr s1))"
proof -
  have c: "''S(end)0.'' @ rest = ''S(end)0'' @ CHR ''.'' # rest"
    by simp
  have g: "getline \<lparr>buffer = ''S(end)0'' @ CHR ''.'' # rest, good = True\<rparr> input2 CHR ''.''
           = (\<lparr>buffer = rest, good = True\<rparr>, ''S(end)0'')"
    by (rule getline_token) simp
  show ?thesis
  proof (cases "dropWhile isspace rest = []")
    case True
    then have w: "ws \<lparr>buffer = rest, good = True\<rparr> = \<lparr>buffer = [], good = False\<rparr>"
      by (simp add: ws_def Let_def)
    have i: "getline \<lparr>buffer = [], good = False\<rparr> ''S(end)0'' CHR ''.''
             = (\<lparr>buffer = [], good = False\<rparr>, ''S(end)0'')"
      by (simp add: getline_def)
    show ?thesis
      unfolding c g Let_def prod.case w
      using True by (simp add: i)
  next
    case False
    then have w: "ws \<lparr>buffer = rest, good = True\<rparr>
                  = \<lparr>buffer = dropWhile isspace rest, good = True\<rparr>"
      by (simp add: ws_def Let_def)
    have i: "snd (getline \<lparr>buffer = dropWhile isspace rest, good = True\<rparr> ''S(end)0'' CHR ''.'')
             = takeWhile (\<lambda>c. c \<noteq> CHR ''.'') (dropWhile isspace rest)"
      by (simp add: getline_good_input)
    show ?thesis
      unfolding c g Let_def prod.case w
      using False by (simp add: case_prod_beta i)
  qed
qed

section \<open>Timing resolver and executor: what the code does where the spec says otherwise\<close>

text \<open>
  C1. The claim: an operation whose kind and description are not one of the recognised
  pairs is a fatal error when its cycle time is resolved, in particular an input or output
  operation with an unknown device. The code: \<^verbatim>\<open>set_operation_cycle_time\<close> throws only for
  an unknown type letter; its chain of device names has no final \<^verbatim>\<open>else\<close>. The token
  \<^verbatim>\<open>I(scanner)2\<close> is loaded without error, and its operation keeps the cycle time that the
  shared variable held from the token before it (10, the processor's).
\<close>

theorem unknown_device_is_loaded:
  "load_meta_data 5 [''meta'' \<mapsto> meta_data ''A(start)0; P(run)3; I(scanner)2; A(end)0;'']
       operation example_simulator ''meta''
   = Some (Inr (example_simulator\<lparr>programs :=
        [loaded [control ''start'',
                 \<lparr>type = CHR ''P'', description = ''run'', cycles = 3, cycleTime = 10\<rparr>,
                 \<lparr>type = CHR ''I'', description = ''scanner'', cycles = 2, cycleTime = 10\<rparr>,
                 control ''end''] 50]\<rparr>))"
  by (simp add: load_meta_data_def meta_data_def getline_def ws_def peek_def isspace_def
      parse_operation_def find_char_def substr_def stoi_def isdigit_def digits_value_def
      set_operation_cycle_time_def add_operation_def new_Program_def duration_def wrap_int_def
      example_simulator_def control_def loaded_def numeral_nat Let_def)

text \<open>
  C2. The claim: a program that consists of the two bracketing operations only is announced
  ("starting process") and removed ("removing process") and completes. The code: after the
  start bracket \<^verbatim>\<open>process_operation\<close> takes the next operation, here the end bracket, so that
  no operation remains and the test \<^verbatim>\<open>remaining_operations() == 1\<close> fails; the program
  completes, but its removal is never announced, under either discipline.
\<close>

theorem bracket_only_program_is_not_removed:
  "load_meta_data 5 [''meta'' \<mapsto> meta_data ''A(start)0; A(end)0;'']
       operation example_simulator ''meta''
   = Some (Inr (example_simulator\<lparr>programs := [loaded [control ''start'', control ''end''] 0]\<rparr>))
   \<and> map_sum (\<lambda>e. e) printed
         (run (example_simulator\<lparr>programs := [loaded [control ''start'', control ''end''] 0]\<rparr>))
       = Inr [''Simulator program starting'', ''OS: preparing all processes'',
              ''OS: selecting next process'', ''OS: starting process 1'',
              ''Simulator program ending'']
   \<and> map_sum (\<lambda>e. e) printed
         (run (example_simulator\<lparr>schedulingCode := ''SRTF-N'',
                 programs := [loaded [control ''start'', control ''end''] 0]\<rparr>))
       = Inr [''Simulator program starting'', ''OS: preparing all processes'',
              ''OS: selecting next process'', ''OS: starting process 1'',
              ''Simulator program ending'']"
  apply (intro conjI)
    apply (simp add: load_meta_data_def meta_data_def getline_def ws_def peek_def isspace_def
      parse_operation_def find_char_def substr_def stoi_def isdigit_def digits_value_def
      set_operation_cycle_time_def add_operation_def new_Program_def duration_def wrap_int_def
      example_simulator_def control_def loaded_def numeral_nat Let_def)
   apply code_simp
  apply code_simp
  done

section \<open>The ranking key\<close>

text \<open>
  C8, as stated, fails: the claim is that \<^verbatim>\<open>running_time\<close> equals the sum of the durations
  of the operations other than the program-control (A) operations. The total is kept in a
  32-bit \<^verbatim>\<open>int\<close>: for two operations \<^verbatim>\<open>P(run)200000000\<close> at 10 per cycle the durations
  add up to 4000000000, and the program is stored with the running time -294967296.
\<close>

theorem running_time_wraps_around:
  "load_meta_data 5
       [''meta'' \<mapsto> meta_data ''A(start)0; P(run)200000000; P(run)200000000; A(end)0;'']
       \<lparr>type = CHR ''x'', description = [], cycles = 7, cycleTime = 9\<rparr> example_simulator ''meta''
   = Some (Inr (example_simulator\<lparr>programs :=
        [loaded [control ''start'',
                 \<lparr>type = CHR ''P'', description = ''run'', cycles = 200000000, cycleTime = 10\<rparr>,
                 \<lparr>type = CHR ''P'', description = ''run'', cycles = 200000000, cycleTime = 10\<rparr>,
                 control ''end''] (- 294967296)]\<rparr>))
   \<and> sum_list (map duration
        [x \<leftarrow> [control ''start'',
               \<lparr>type = CHR ''P'', description = ''run'', cycles = 200000000, cycleTime = 10\<rparr>,
               \<lparr>type = CHR ''P'', description = ''run'', cycles = 200000000, cycleTime = 10\<rparr>,
               control ''end'']. type x \<noteq> CHR ''A''])
       = 4000000000"
  by (simp add: load_eval)

text \<open>
  C8, amended: for every program that \<^verbatim>\<open>load_meta_data\<close> builds, \<^verbatim>\<open>running_time\<close> is the sum
  of the durations of its operations other than the program-control (A) operations, taken
  in the 32-bit arithmetic of \<^verbatim>\<open>int\<close>; it is that sum itself whenever the sum is within the
  range of \<^verbatim>\<open>int\<close>. (The loader adds every duration, and those of the A operations are 0
  because their cycle time is resolved to 0.) Nothing changes the value afterwards: the
  executor returns the copy it worked on with the same \<^verbatim>\<open>running_time\<close>, and a run returns
  the stored programs as they were.
\<close>

theorem running_time_fixed_at_load:
  assumes "load_meta_data fuel files operation s filePath = Some (Inr s')"
    and "p \<in> set (programs s')" and "p \<notin> set (programs s)"
  shows "running_time p
           = wrap_int (sum_list (map duration [x \<leftarrow> operations p. type x \<noteq> CHR ''A'']))
       \<and> (- 2147483648 \<le> sum_list (map duration [x \<leftarrow> operations p. type x \<noteq> CHR ''A'']) \<longrightarrow>
          sum_list (map duration [x \<leftarrow> operations p. type x \<noteq> CHR ''A'']) \<le> 2147483647 \<longrightarrow>
          running_time p = sum_list (map duration [x \<leftarrow> operations p. type x \<noteq> CHR ''A'']))
       \<and> (\<forall>sim q sim' q'. process_operation sim q = Inr (sim', q') \<longrightarrow> running_time q' = running_time q)
       \<and> (\<forall>sim sim'. run sim = Inr sim' \<longrightarrow> programs sim' = programs sim)"
proof -
  from load_meta_data_result [OF assms(1)] assms(2,3) have l: "as_loaded p"
    by auto
  have w: "running_time p
           = wrap_int (sum_list (map duration [x \<leftarrow> operations p. type x \<noteq> CHR ''A'']))"
    using l sum_without_control [of "operations p"] by (simp add: as_loaded_def)
  then have "running_time p = sum_list (map duration [x \<leftarrow> operations p. type x \<noteq> CHR ''A''])"
    if "- 2147483648 \<le> sum_list (map duration [x \<leftarrow> operations p. type x \<noteq> CHR ''A''])"
       "sum_list (map duration [x \<leftarrow> operations p. type x \<noteq> CHR ''A'']) \<le> 2147483647"
    using that by (simp add: wrap_int_in_range)
  moreover have "running_time q' = running_time q"
    if "process_operation sim q = Inr (sim', q')" for sim q sim' q'
    using frame_running_time [OF process_operation_program_frame [OF that]] .
  moreover have "programs sim' = programs sim" if "run sim = Inr sim'" for sim sim'
    using frame2_programs [OF run_frame [OF that]] .
  ultimately show ?thesis using w by blast
qed

theorem running_time_fixed_at_load_witness:
  "load_meta_data 5 [''meta'' \<mapsto> meta_data ''A(start)0; P(run)3; I(hard drive)2; A(end)0;'']
     \<lparr>type = CHR ''x'', description = [], cycles = 7, cycleTime = 9\<rparr> example_simulator ''meta''
   = Some (Inr (example_simulator\<lparr>programs := [scenario_program]\<rparr>))
   \<and> scenario_program \<in> set (programs (example_simulator\<lparr>programs := [scenario_program]\<rparr>))
   \<and> scenario_program \<notin> set (programs example_simulator)
   \<and> - 2147483648
       \<le> sum_list (map duration [x \<leftarrow> operations scenario_program. type x \<noteq> CHR ''A''])
   \<and> sum_list (map duration [x \<leftarrow> operations scenario_program. type x \<noteq> CHR ''A''])
       \<le> 2147483647
   \<and> running_time scenario_program
       = sum_list (map duration [x \<leftarrow> operations scenario_program. type x \<noteq> CHR ''A''])
   \<and> running_time scenario_program = 40
   \<and> process_operation example_simulator (scenario_program\<lparr>id := 1, state := RUNNING\<rparr>)
       = Inr (example_simulator\<lparr>printed :=
                [''OS: starting process 1'', ''Process 1: start processing action'',
                 ''Process 1: end processing action'']\<rparr>,
              \<lparr>operations =
                 [\<lparr>type = CHR ''I'', description = ''hard drive'', cycles = 2, cycleTime = 5\<rparr>,
                  control ''end''],
               state = RUNNING, running_time = 40, id = 1\<rparr>)
   \<and> running_time
         \<lparr>operations =
            [\<lparr>type = CHR ''I'', description = ''hard drive'', cycles = 2, cycleTime = 5\<rparr>,
             control ''end''],
          state = RUNNING, running_time = 40, id = 1\<rparr>
       = running_time (scenario_program\<lparr>id := 1, state := RUNNING\<rparr>)
   \<and> run (example_simulator\<lparr>programs := [scenario_program]\<rparr>)
       = Inr (example_simulator\<lparr>programs := [scenario_program],
            printed :=
              [''Simulator program starting'', ''OS: preparing all processes'',
               ''OS: selecting next process'', ''OS: starting process 1'',
               ''Process 1: start processing action'', ''Process 1: end processing action'',
               ''Process 1: start hard drive input'', ''Process 1: end hard drive input'',
               ''OS: removing process 1'', ''Simulator program ending'']\<rparr>)"
proof -
  have h2: "scenario_program \<in> set (programs (example_simulator\<lparr>programs := [scenario_program]\<rparr>))"
    by simp
  have h3: "scenario_program \<notin> set (programs example_simulator)"
    by (simp add: example_simulator_def)
  note t = running_time_fixed_at_load [OF scenario_load h2 h3]
  have lo: "- 2147483648
       \<le> sum_list (map duration [x \<leftarrow> operations scenario_program. type x \<noteq> CHR ''A''])"
    by (simp add: scenario_program_def loaded_def control_def duration_def wrap_int_def)
  have hi: "sum_list (map duration [x \<leftarrow> operations scenario_program. type x \<noteq> CHR ''A''])
       \<le> 2147483647"
    by (simp add: scenario_program_def loaded_def control_def duration_def wrap_int_def)
  note r = t [THEN conjunct2, THEN conjunct1, rule_format, OF lo hi]
  have v: "running_time scenario_program = 40"
    by (simp add: scenario_program_def loaded_def)
  have h4: "process_operation example_simulator (scenario_program\<lparr>id := 1, state := RUNNING\<rparr>)
       = Inr (example_simulator\<lparr>printed :=
                [''OS: starting process 1'', ''Process 1: start processing action'',
                 ''Process 1: end processing action'']\<rparr>,
              \<lparr>operations =
                 [\<lparr>type = CHR ''I'', description = ''hard drive'', cycles = 2, cycleTime = 5\<rparr>,
                  control ''end''],
               state = RUNNING, running_time = 40, id = 1\<rparr>)"
    by code_simp
  note k = t [THEN conjunct2, THEN conjunct2, THEN conjunct1, rule_format, OF h4]
  have h5: "run (example_simulator\<lparr>programs := [scenario_program]\<rparr>)
       = Inr (example_simulator\<lparr>programs := [scenario_program],
            printed :=
              [''Simulator program starting'', ''OS: preparing all processes'',
               ''OS: selecting next process'', ''OS: starting process 1'',
               ''Process 1: start processing action'', ''Process 1: end processing action'',
               ''Process 1: start hard drive input'', ''Process 1: end hard drive input'',
               ''OS: removing process 1'', ''Simulator program ending'']\<rparr>)"
    by code_simp
  show ?thesis
    by (intro conjI) (rule scenario_load h2 h3 lo hi r v h4 k h5)+
qed

section \<open>The stored programs\<close>

text \<open>
  C10. A run that returns leaves the collection of stored programs as it was: both
  scheduling branches work on copies. Stored programs that were in state START with id 0,
  as the loader leaves them, still are, with all their operations.
\<close>

theorem run_leaves_stored_programs:
  assumes "run s = Inr s'" and "\<forall>p \<in> set (programs s). state p = START \<and> id p = 0"
  shows "programs s' = programs s \<and> (\<forall>p \<in> set (programs s'). state p = START \<and> id p = 0)"
  using frame2_programs [OF run_frame [OF assms(1)]] assms(2) by simp

theorem run_leaves_stored_programs_witness:
  "run (example_simulator\<lparr>schedulingCode := ''SRTF-N'', programs := [scenario_program]\<rparr>)
   = Inr (example_simulator\<lparr>schedulingCode := ''SRTF-N'', programs := [scenario_program],
        printed :=
          [''Simulator program starting'', ''OS: preparing all processes'',
           ''OS: selecting next process'', ''OS: starting process 1'',
           ''Process 1: start processing action'', ''Process 1: end processing action'',
           ''OS: selecting next process'',
           ''Process 1: start hard drive input'', ''Process 1: end hard drive input'',
           ''OS: removing process 1'', ''Simulator program ending'']\<rparr>)
   \<and> state scenario_program = START \<and> id scenario_program = 0
   \<and> programs (example_simulator\<lparr>schedulingCode := ''SRTF-N'', programs := [scenario_program],
        printed :=
          [''Simulator program starting'', ''OS: preparing all processes'',
           ''OS: selecting next process'', ''OS: starting process 1'',
           ''Process 1: start processing action'', ''Process 1: end processing action'',
           ''OS: selecting next process'',
           ''Process 1: start hard drive input'', ''Process 1: end hard drive input'',
           ''OS: removing process 1'', ''Simulator program ending'']\<rparr>)
     = [scenario_program]"
proof -
  let ?s = "example_simulator\<lparr>schedulingCode := ''SRTF-N'', programs := [scenario_program]\<rparr>"
  let ?s' = "example_simulator\<lparr>schedulingCode := ''SRTF-N'', programs := [scenario_program],
        printed :=
          [''Simulator program starting'', ''OS: preparing all processes'',
           ''OS: selecting next process'', ''OS: starting process 1'',
           ''Process 1: start processing action'', ''Process 1: end processing action'',
           ''OS: selecting next process'',
           ''Process 1: start hard drive input'', ''Process 1: end hard drive input'',
           ''OS: removing process 1'', ''Simulator program ending'']\<rparr>"
  have h1: "run ?s = Inr ?s'"
    by code_simp
  have h2: "\<forall>p \<in> set (programs ?s). state p = START \<and> id p = 0"
    by (simp add: scenario_program_def loaded_def)
  from run_leaves_stored_programs [OF h1 h2] h1 h2 show ?thesis
    by simp
qed

section \<open>First in, first out\<close>




section \<open>Shortest remaining time first\<close>



text \<open>
  C3. A run under SRTF-N whose stored programs have not been dispatched before (and have
  queues the executor can process) makes as many passes through the scheduling loop as
  there are dispatches, ends with an empty priority structure, and returns. Pass \<open>k\<close>
  takes the \<open>k\<close>-th dispatched program from the top of the structure, where no program has
  a smaller \<^verbatim>\<open>running_time\<close>; after the pass the structure holds the other programs in
  their order and, unless the program is finished, the program again, behind every program
  whose \<^verbatim>\<open>running_time\<close> is not greater than its own and before all others. So the whole
  sequence of dispatches is ascending in \<^verbatim>\<open>running_time\<close>, a program that has just run
  waits for the programs tied with it, and the order in which the programs are dispatched
  for the first time is the admission order sorted by \<^verbatim>\<open>running_time\<close> with ties kept in
  admission order: among the programs of any one running time \<open>k\<close>, first dispatch follows
  admission. The sequence is determined by the batch alone: any simulator with the same
  stored programs, whatever its configuration and its log, dispatches in the same order.
\<close>

theorem srtf_dispatch_order:
  assumes "schedulingCode s \<noteq> ''FIFO''" and "SRTF_queue s = []"
    and "\<forall>p \<in> set (programs s). runnable p \<and> id p = 0"
  shows "(\<exists>final counter.
            srtf_passes (length (srtf_dispatches (srtf_prepared s) 0)) (srtf_prepared s) 0
              = Inr (final, counter)
          \<and> SRTF_queue final = []
          \<and> run s = Inr (print final ''Simulator program ending''))
       \<and> (\<forall>k < length (srtf_dispatches (srtf_prepared s) 0).
            \<exists>sk ck popped s' c'.
              srtf_passes k (srtf_prepared s) 0 = Inr (sk, ck)
            \<and> SRTF_queue sk = srtf_dispatches (srtf_prepared s) 0 ! k # popped
            \<and> (\<forall>q \<in> set popped.
                  running_time (srtf_dispatches (srtf_prepared s) 0 ! k) \<le> running_time q)
            \<and> srtf_passes (Suc k) (srtf_prepared s) 0 = Inr (s', c')
            \<and> (SRTF_queue s' = popped
               \<or> (\<exists>p'. running_time p' = running_time (srtf_dispatches (srtf_prepared s) 0 ! k)
                    \<and> state p' = READY
                    \<and> SRTF_queue s'
                        = takeWhile (\<lambda>q. running_time q \<le> running_time p') popped
                          @ p' # dropWhile (\<lambda>q. running_time q \<le> running_time p') popped)))
       \<and> sorted (map running_time (srtf_dispatches (srtf_prepared s) 0))
       \<and> [p \<leftarrow> srtf_dispatches (srtf_prepared s) 0. id p = 0]
           = sort_key running_time (map (\<lambda>p. p\<lparr>state := READY\<rparr>) (programs s))
       \<and> (\<forall>k. [p \<leftarrow> [p \<leftarrow> srtf_dispatches (srtf_prepared s) 0. id p = 0]. running_time p = k]
              = [p \<leftarrow> map (\<lambda>p. p\<lparr>state := READY\<rparr>) (programs s). running_time p = k])
       \<and> (\<forall>s2. SRTF_queue s2 = [] \<longrightarrow> programs s2 = programs s \<longrightarrow>
              srtf_dispatches (srtf_prepared s2) 0 = srtf_dispatches (srtf_prepared s) 0)"
proof -
  let ?s0 = "srtf_prepared s"
  let ?D = "srtf_dispatches ?s0 0"
  let ?ready = "map (\<lambda>p. p\<lparr>state := READY\<rparr>) (programs s)"
  have q: "SRTF_queue ?s0 = sort_key running_time ?ready"
    using srtf_prepared_queue [OF assms(2)] .
  have so: "sorted (map running_time (SRTF_queue ?s0))"
    by (simp add: q)
  have ru: "\<forall>p \<in> set (SRTF_queue ?s0). runnable p"
    using assms(3) by (auto simp: q runnable_fields)
  from srtf_loop_total [OF ru] obtain final where l: "srtf_loop ?s0 0 = Inr final"
    by blast
  from srtf_loop_passes [OF l] obtain counter where
    "srtf_passes (length ?D) ?s0 0 = Inr (final, counter)" "SRTF_queue final = []"
    by blast
  moreover have "run s = Inr (print final ''Simulator program ending'')"
    by (simp add: run_srtf [OF assms(1)] l)
  ultimately have a: "\<exists>final counter.
            srtf_passes (length ?D) ?s0 0 = Inr (final, counter)
          \<and> SRTF_queue final = []
          \<and> run s = Inr (print final ''Simulator program ending'')"
    by blast
  have b: "\<exists>sk ck popped s' c'.
              srtf_passes k ?s0 0 = Inr (sk, ck)
            \<and> SRTF_queue sk = ?D ! k # popped
            \<and> (\<forall>q \<in> set popped. running_time (?D ! k) \<le> running_time q)
            \<and> srtf_passes (Suc k) ?s0 0 = Inr (s', c')
            \<and> (SRTF_queue s' = popped
               \<or> (\<exists>p'. running_time p' = running_time (?D ! k)
                    \<and> state p' = READY
                    \<and> SRTF_queue s'
                        = takeWhile (\<lambda>q. running_time q \<le> running_time p') popped
                          @ p' # dropWhile (\<lambda>q. running_time q \<le> running_time p') popped))"
    if k: "k < length ?D" for k
  proof -
    from srtf_passes_dispatch [OF k l] obtain sk ck s1 c1 where
      pk: "srtf_passes k ?s0 0 = Inr (sk, ck)" and ne: "SRTF_queue sk \<noteq> []" and
      hd: "hd (SRTF_queue sk) = ?D ! k" and it: "srtf_iteration sk ck = Inr (s1, c1)"
      by blast
    define popped where "popped = tl (SRTF_queue sk)"
    have qk: "SRTF_queue sk = ?D ! k # popped"
      using ne hd by (cases "SRTF_queue sk") (simp_all add: popped_def)
    have "sorted (map running_time (SRTF_queue sk))"
      using srtf_passes_sorted [OF pk so] .
    then have least: "\<forall>q \<in> set popped. running_time (?D ! k) \<le> running_time q"
      by (simp add: qk)
    have ps: "srtf_passes (Suc k) ?s0 0 = Inr (s1, c1)"
      using srtf_passes_Suc [OF pk] it by simp
    from srtf_iteration_queue [OF qk it] obtain s3 program1 where
      po: "process_operation ((print sk ''OS: selecting next process'')\<lparr>SRTF_queue := popped\<rparr>)
             (snd (srtf_select ck (?D ! k))) = Inr (s3, program1)" and
      q3: "SRTF_queue s3 = popped" and s1: "s1 = fst (srtf_finish s3 program1)"
      by blast
    have rt: "running_time program1 = running_time (?D ! k)"
      using frame_running_time [OF process_operation_program_frame [OF po]]
      by (simp add: srtf_select_def)
    have "SRTF_queue s1 = popped
          \<or> SRTF_queue s1 = queue_push (program1\<lparr>state := READY\<rparr>) popped"
      by (simp add: s1 srtf_finish_def q3)
    then have "SRTF_queue s1 = popped
               \<or> (\<exists>p'. running_time p' = running_time (?D ! k)
                    \<and> state p' = READY
                    \<and> SRTF_queue s1
                        = takeWhile (\<lambda>q. running_time q \<le> running_time p') popped
                          @ p' # dropWhile (\<lambda>q. running_time q \<le> running_time p') popped)"
    proof
      assume "SRTF_queue s1 = popped"
      then show ?thesis by simp
    next
      assume "SRTF_queue s1 = queue_push (program1\<lparr>state := READY\<rparr>) popped"
      then have "running_time (program1\<lparr>state := READY\<rparr>) = running_time (?D ! k)
           \<and> state (program1\<lparr>state := READY\<rparr>) = READY
           \<and> SRTF_queue s1
               = takeWhile (\<lambda>q. running_time q \<le> running_time (program1\<lparr>state := READY\<rparr>)) popped
                 @ program1\<lparr>state := READY\<rparr>
                 # dropWhile (\<lambda>q. running_time q \<le> running_time (program1\<lparr>state := READY\<rparr>)) popped"
        using rt queue_push_takeWhile [of "program1\<lparr>state := READY\<rparr>" popped] by simp
      then show ?thesis by blast
    qed
    with pk qk least ps show ?thesis
      by blast
  qed
  have c: "sorted (map running_time ?D)"
    using srtf_dispatches_sorted [OF so] by blast
  have "[p \<leftarrow> ?D. id p = 0] = [p \<leftarrow> SRTF_queue ?s0. id p = 0]"
    using srtf_dispatches_fresh [of 0 ?s0] ru by simp
  also have "\<dots> = sort_key running_time ?ready"
    using assms(3) by (auto simp: q filter_id_conv)
  finally have d: "[p \<leftarrow> ?D. id p = 0] = sort_key running_time ?ready" .
  have e: "[p \<leftarrow> [p \<leftarrow> ?D. id p = 0]. running_time p = k]
        = [p \<leftarrow> ?ready. running_time p = k]" for k
    unfolding d by (rule sort_key_stable)
  have f: "srtf_dispatches (srtf_prepared s2) 0 = ?D"
    if "SRTF_queue s2 = []" "programs s2 = programs s" for s2
  proof -
    have "SRTF_queue (srtf_prepared s2) = SRTF_queue ?s0"
      using srtf_prepared_queue [OF that(1)] that(2) q by simp
    then show ?thesis
      by (rule srtf_dispatches_queue_only)
  qed
  from a b c d e f show ?thesis
    by blast
qed

theorem srtf_dispatch_order_witness:
  "schedulingCode srtf_simulator \<noteq> ''FIFO''
   \<and> SRTF_queue srtf_simulator = []
   \<and> programs srtf_simulator = [scenario_program, short_program, scenario_program]
   \<and> runnable scenario_program \<and> id scenario_program = 0
   \<and> runnable short_program \<and> id short_program = 0
   \<and> srtf_dispatches (srtf_prepared srtf_simulator) 0
       = [short_program\<lparr>state := READY\<rparr>, scenario_program\<lparr>state := READY\<rparr>,
          scenario_program\<lparr>state := READY\<rparr>,
          \<lparr>operations =
             [\<lparr>type = CHR ''I'', description = ''hard drive'', cycles = 2, cycleTime = 5\<rparr>,
              control ''end''],
           state = READY, running_time = 40, id = 2\<rparr>,
          \<lparr>operations =
             [\<lparr>type = CHR ''I'', description = ''hard drive'', cycles = 2, cycleTime = 5\<rparr>,
              control ''end''],
           state = READY, running_time = 40, id = 3\<rparr>]
   \<and> (\<exists>final counter.
         srtf_passes 5 (srtf_prepared srtf_simulator) 0 = Inr (final, counter)
       \<and> SRTF_queue final = []
       \<and> run srtf_simulator = Inr (print final ''Simulator program ending''))
   \<and> (\<exists>sk ck popped s' c'.
         srtf_passes 1 (srtf_prepared srtf_simulator) 0 = Inr (sk, ck)
       \<and> SRTF_queue sk = scenario_program\<lparr>state := READY\<rparr> # popped
       \<and> srtf_passes (Suc 1) (srtf_prepared srtf_simulator) 0 = Inr (s', c')
       \<and> (SRTF_queue s' = popped
          \<or> (\<exists>p'. running_time p' = running_time (scenario_program\<lparr>state := READY\<rparr>)
               \<and> state p' = READY
               \<and> SRTF_queue s'
                   = takeWhile (\<lambda>q. running_time q \<le> running_time p') popped
                     @ p' # dropWhile (\<lambda>q. running_time q \<le> running_time p') popped)))
   \<and> (case srtf_passes (Suc 1) (srtf_prepared srtf_simulator) 0 of
         Inl e \<Rightarrow> []
       | Inr (s', c') \<Rightarrow> SRTF_queue s')
       = [scenario_program\<lparr>state := READY\<rparr>,
          \<lparr>operations =
             [\<lparr>type = CHR ''I'', description = ''hard drive'', cycles = 2, cycleTime = 5\<rparr>,
              control ''end''],
           state = READY, running_time = 40, id = 2\<rparr>]
   \<and> sorted (map running_time (srtf_dispatches (srtf_prepared srtf_simulator) 0))
   \<and> [p \<leftarrow> srtf_dispatches (srtf_prepared srtf_simulator) 0. id p = 0]
       = [short_program\<lparr>state := READY\<rparr>, scenario_program\<lparr>state := READY\<rparr>,
          scenario_program\<lparr>state := READY\<rparr>]
   \<and> [p \<leftarrow> [p \<leftarrow> srtf_dispatches (srtf_prepared srtf_simulator) 0. id p = 0]. running_time p = 40]
       = [scenario_program\<lparr>state := READY\<rparr>, scenario_program\<lparr>state := READY\<rparr>]
   \<and> SRTF_queue (srtf_simulator\<lparr>schedulingCode := ''SJF'', processorCycleTime := 1,
                                 printed := [''an earlier run'']\<rparr>) = []
   \<and> programs (srtf_simulator\<lparr>schedulingCode := ''SJF'', processorCycleTime := 1,
                               printed := [''an earlier run'']\<rparr>) = programs srtf_simulator
   \<and> srtf_dispatches
        (srtf_prepared (srtf_simulator\<lparr>schedulingCode := ''SJF'', processorCycleTime := 1,
                                        printed := [''an earlier run'']\<rparr>)) 0
       = srtf_dispatches (srtf_prepared srtf_simulator) 0"
proof -
  let ?s0 = "srtf_prepared srtf_simulator"
  let ?s2 = "srtf_simulator\<lparr>schedulingCode := ''SJF'', processorCycleTime := 1,
                            printed := [''an earlier run'']\<rparr>"
  let ?later = "\<lambda>i. \<lparr>operations =
             [\<lparr>type = CHR ''I'', description = ''hard drive'', cycles = 2, cycleTime = 5\<rparr>,
              control ''end''],
           state = READY, running_time = 40, id = i\<rparr>"
  have h1: "schedulingCode srtf_simulator \<noteq> ''FIFO''"
    by (simp add: srtf_simulator_def)
  have h2: "SRTF_queue srtf_simulator = []"
    by (simp add: srtf_simulator_def example_simulator_def)
  have ps: "programs srtf_simulator = [scenario_program, short_program, scenario_program]"
    by (simp add: srtf_simulator_def)
  have h3: "runnable scenario_program" "id scenario_program = 0"
    "runnable short_program" "id short_program = 0"
    by (simp_all add: runnable_def scenario_program_def short_program_def loaded_def control_def)
  then have h3': "\<forall>p \<in> set (programs srtf_simulator). runnable p \<and> id p = 0"
    by (simp add: ps)
  note t = srtf_dispatch_order [OF h1 h2 h3']
  have d: "srtf_dispatches ?s0 0
       = [short_program\<lparr>state := READY\<rparr>, scenario_program\<lparr>state := READY\<rparr>,
          scenario_program\<lparr>state := READY\<rparr>, ?later 2, ?later 3]"
    by code_simp
  have len: "length (srtf_dispatches ?s0 0) = 5"
    by (simp add: d)
  note a = t [THEN conjunct1, unfolded len]
  have "(1::nat) < length (srtf_dispatches ?s0 0)"
    by (simp add: d)
  from t [THEN conjunct2, THEN conjunct1, rule_format, OF this]
  have b: "\<exists>sk ck popped s' c'.
         srtf_passes 1 ?s0 0 = Inr (sk, ck)
       \<and> SRTF_queue sk = scenario_program\<lparr>state := READY\<rparr> # popped
       \<and> srtf_passes (Suc 1) ?s0 0 = Inr (s', c')
       \<and> (SRTF_queue s' = popped
          \<or> (\<exists>p'. running_time p' = running_time (scenario_program\<lparr>state := READY\<rparr>)
               \<and> state p' = READY
               \<and> SRTF_queue s'
                   = takeWhile (\<lambda>q. running_time q \<le> running_time p') popped
                     @ p' # dropWhile (\<lambda>q. running_time q \<le> running_time p') popped))"
    unfolding d by (simp only: nth_Cons_Suc nth_Cons_0 One_nat_def) blast
  have b': "(case srtf_passes (Suc 1) ?s0 0 of Inl e \<Rightarrow> [] | Inr (s', c') \<Rightarrow> SRTF_queue s')
       = [scenario_program\<lparr>state := READY\<rparr>, ?later 2]"
    by code_simp
  note c = t [THEN conjunct2, THEN conjunct2, THEN conjunct1]
  have e: "[p \<leftarrow> srtf_dispatches ?s0 0. id p = 0]
       = [short_program\<lparr>state := READY\<rparr>, scenario_program\<lparr>state := READY\<rparr>,
          scenario_program\<lparr>state := READY\<rparr>]"
    using t [THEN conjunct2, THEN conjunct2, THEN conjunct2, THEN conjunct1]
    by (simp add: ps scenario_program_def short_program_def loaded_def)
  have f: "[p \<leftarrow> [p \<leftarrow> srtf_dispatches ?s0 0. id p = 0]. running_time p = 40]
       = [scenario_program\<lparr>state := READY\<rparr>, scenario_program\<lparr>state := READY\<rparr>]"
    using t [THEN conjunct2, THEN conjunct2, THEN conjunct2, THEN conjunct2, THEN conjunct1,
             THEN spec, of 40]
    by (simp add: ps scenario_program_def short_program_def loaded_def)
  have g1: "SRTF_queue ?s2 = []"
    using h2 by simp
  have g2: "programs ?s2 = programs srtf_simulator"
    by simp
  note g = t [THEN conjunct2, THEN conjunct2, THEN conjunct2, THEN conjunct2, THEN conjunct2,
              THEN spec, THEN mp, THEN mp, OF g1 g2]
  show ?thesis
    by (intro conjI) (rule h1 h2 ps h3 d a b b' c e f g1 g2 g)+
qed

section \<open>Program states\<close>




section \<open>Malformed meta-data\<close>

text \<open>
  C7, as stated, fails: the claim is that a run of tokens that does not begin with
  \<^verbatim>\<open>A(start)0\<close> and end with \<^verbatim>\<open>A(end)0\<close> is a fatal format error. The loader never looks for
  the start bracket: a program is whatever run of tokens ends with \<^verbatim>\<open>A(end)0\<close>. The run
  \<^verbatim>\<open>P(run)3; A(end)0;\<close> is loaded as a program of two operations.
\<close>

theorem program_without_start_is_loaded:
  "load_meta_data 5 [''meta'' \<mapsto> meta_data ''P(run)3; A(end)0;'']
       \<lparr>type = CHR ''x'', description = [], cycles = 7, cycleTime = 9\<rparr> example_simulator ''meta''
   = Some (Inr (example_simulator\<lparr>programs :=
        [loaded [\<lparr>type = CHR ''P'', description = ''run'', cycles = 3, cycleTime = 10\<rparr>,
                 control ''end''] 30]\<rparr>))"
  by (simp add: load_eval)

text \<open>
  C7, amended: loading ends with an exception when the file cannot be opened; when the text before the first semicolon is not the preamble
  \<^verbatim>\<open>Start Program Meta-Data Code:\<close>, newline, \<^verbatim>\<open>S(start)0\<close>; when, after the preamble and any
  run of well-formed tokens, there comes a token whose cycle count \<^verbatim>\<open>std::stoi\<close> cannot parse
  (the exception is the one of \<^verbatim>\<open>std::stoi\<close>); when, after the preamble and complete programs,
  the text starts with \<^verbatim>\<open>S\<close> but what precedes the next full stop is not \<^verbatim>\<open>S(end)0\<close>; and
  when \<^verbatim>\<open>S(end)0.\<close> is not followed, after whitespace, by \<^verbatim>\<open>End Program Meta-Data Code\<close>
  and then a full stop or the end of the file. The brackets are checked only in that a
  program lasts until the next \<^verbatim>\<open>A(end)0\<close>: with the preamble and the two closing lines in
  place, every run of well-formed tokens that is empty or ends with \<^verbatim>\<open>A(end)0\<close> is accepted,
  whether or not its programs begin with \<^verbatim>\<open>A(start)0\<close>, and gives one program for each
  \<^verbatim>\<open>A(end)0\<close>. Whatever is accepted has the preamble and the closing lines, and each of
  its programs is a non-empty run of operations that ends with the operation of
  \<^verbatim>\<open>A(end)0\<close>.
\<close>
theorem load_meta_data_format_checks:
  "(files filePath = None \<longrightarrow>
      load_meta_data fuel files operation s filePath
        = Some (Inl (runtime_error (''Error: Unable to open file '' @ filePath @ [CHR 0x0A]))))
   \<and> (files filePath = Some contents \<longrightarrow>
       takeWhile (\<lambda>c. c \<noteq> CHR '';'') contents
         \<noteq> ''Start Program Meta-Data Code:'' @ [CHR 0x0A] @ ''S(start)0'' \<longrightarrow>
       load_meta_data fuel files operation s filePath
         = Some (Inl (runtime_error
               (''Error: Incorrect meta-data file format:             Simulator start flag is missing''
                @ [CHR 0x0A]))))
   \<and> (files filePath = Some (''Start Program Meta-Data Code:'' @ [CHR 0x0A] @ ''S(start)0;'' @ w0 @ tokens_text tokens @ rest) \<longrightarrow>
       (\<forall>c \<in> set w0. isspace c) \<longrightarrow>
       (\<forall>(t, w) \<in> set tokens. well_formed_token t \<and> (\<forall>c \<in> set w. isspace c)) \<longrightarrow>
       length tokens + 2 \<le> fuel \<longrightarrow>
         (\<forall>token e tail.
            rest = token @ tail \<longrightarrow> tail = [] \<or> hd tail = CHR '';'' \<longrightarrow>
            2 \<le> length token \<longrightarrow> CHR '';'' \<notin> set token \<longrightarrow>
            \<not> isspace (hd token) \<longrightarrow> hd token \<noteq> CHR ''S'' \<longrightarrow>
            stoi (drop (nat (find_char token CHR '')'' + 1)) token) = Inl e \<longrightarrow>
            load_meta_data fuel files operation s filePath = Some (Inl e))
       \<and> (tokens = [] \<or> fst (last tokens) = ''A(end)0'' \<longrightarrow>
          rest \<noteq> [] \<longrightarrow> hd rest = CHR ''S'' \<longrightarrow>
            (takeWhile (\<lambda>c. c \<noteq> CHR ''.'') rest \<noteq> ''S(end)0'' \<longrightarrow>
             load_meta_data fuel files operation s filePath
               = Some (Inl (runtime_error
               (''Error: Incorrect meta-data file format:             Simulator end flag is missing''
                @ [CHR 0x0A]))))
          \<and> (\<forall>tail. rest = ''S(end)0.'' @ tail \<longrightarrow>
                (takeWhile (\<lambda>c. c \<noteq> CHR ''.'') (dropWhile isspace tail)
                   \<noteq> ''End Program Meta-Data Code'' \<longrightarrow>
                 load_meta_data fuel files operation s filePath
                   = Some (Inl (runtime_error
               (''Error: Incorrect meta-data file format:             Meta-Data file does not end after simulator operations end''
                @ [CHR 0x0A]))))
              \<and> (takeWhile (\<lambda>c. c \<noteq> CHR ''.'') (dropWhile isspace tail)
                   = ''End Program Meta-Data Code'' \<longrightarrow>
                 (\<exists>s'. load_meta_data fuel files operation s filePath = Some (Inr s')
                    \<and> length (programs s')
                        = length (programs s) + length [tw \<leftarrow> tokens. fst tw = ''A(end)0''])))))
   \<and> (load_meta_data fuel files operation s filePath = Some (Inr s') \<longrightarrow>
      (\<exists>contents body sp tail new.
          files filePath = Some contents
        \<and> contents = ''Start Program Meta-Data Code:'' @ [CHR 0x0A] @ ''S(start)0;'' @ body
            @ ''S(end)0.'' @ sp @ ''End Program Meta-Data Code'' @ tail
        \<and> (\<forall>c \<in> set sp. isspace c) \<and> (tail = [] \<or> hd tail = CHR ''.'')
        \<and> programs s' = programs s @ new
        \<and> (\<forall>p \<in> set new. operations p \<noteq> [] \<and> last (operations p) = control ''end'')))"
proof (intro conjI impI allI)
  assume "files filePath = None"
  then show "load_meta_data fuel files operation s filePath
        = Some (Inl (runtime_error (''Error: Unable to open file '' @ filePath @ [CHR 0x0A])))"
    by (simp add: load_meta_data_def)
next
  assume "files filePath = Some contents"
    and "takeWhile (\<lambda>c. c \<noteq> CHR '';'') contents
           \<noteq> ''Start Program Meta-Data Code:'' @ [CHR 0x0A] @ ''S(start)0''"
  then show "load_meta_data fuel files operation s filePath
         = Some (Inl (runtime_error
               (''Error: Incorrect meta-data file format:             Simulator start flag is missing''
                @ [CHR 0x0A])))"
    by (rule load_meta_data_preamble)
next
  fix token e tail
  assume f: "files filePath = Some (''Start Program Meta-Data Code:'' @ [CHR 0x0A] @ ''S(start)0;'' @ w0 @ tokens_text tokens @ rest)"
    and w0: "\<forall>c \<in> set w0. isspace c"
    and wf: "\<forall>(t, w) \<in> set tokens. well_formed_token t \<and> (\<forall>c \<in> set w. isspace c)"
    and fuel: "length tokens + 2 \<le> fuel"
    and rest: "rest = token @ tail" and tail: "tail = [] \<or> hd tail = CHR '';''"
    and t: "2 \<le> length token" "CHR '';'' \<notin> set token" "\<not> isspace (hd token)"
      "hd token \<noteq> CHR ''S''" "stoi (drop (nat (find_char token CHR '')'' + 1)) token) = Inl e"
  from t(1) have b: "token @ tail \<noteq> []" "hd (token @ tail) = hd token"
    by (cases token; simp)+
  from tokens_text_front [OF wf b(1)] t(3,4) b(2) have
    r: "tokens_text tokens @ token @ tail \<noteq> []" "\<not> isspace (hd (tokens_text tokens @ token @ tail))"
    by simp_all
  show "load_meta_data fuel files operation s filePath = Some (Inl e)"
    unfolding load_meta_data_after_preamble [where files = files and filePath = filePath, OF f [unfolded rest] w0 r]
    by (simp add: read_programs_abort [OF t(1,5,2,3,4) tail wf fuel])
next
  assume f: "files filePath = Some (''Start Program Meta-Data Code:'' @ [CHR 0x0A] @ ''S(start)0;'' @ w0 @ tokens_text tokens @ rest)"
    and w0: "\<forall>c \<in> set w0. isspace c"
    and wf: "\<forall>(t, w) \<in> set tokens. well_formed_token t \<and> (\<forall>c \<in> set w. isspace c)"
    and fuel: "length tokens + 2 \<le> fuel"
    and c: "tokens = [] \<or> fst (last tokens) = ''A(end)0''"
    and rest: "rest \<noteq> []" "hd rest = CHR ''S''"
    and flag: "takeWhile (\<lambda>c. c \<noteq> CHR ''.'') rest \<noteq> ''S(end)0''"
  have sp: "\<not> isspace (hd rest)" "hd rest \<noteq> CHR ''S'' \<or> True"
    using rest(2) by (simp_all add: isspace_def)
  have r: "tokens_text tokens @ rest \<noteq> []" "\<not> isspace (hd (tokens_text tokens @ rest))"
    using rest(1) wf sp(1) well_formed_token_front
    by (cases tokens; auto simp: tokens_text_def)+
  from read_programs_complete [OF rest wf c fuel] obtain s1 input2 where
    rp: "read_programs fuel s \<lparr>buffer = tokens_text tokens @ rest, good = True\<rparr>
       (''Start Program Meta-Data Code:'' @ [CHR 0x0A] @ ''S(start)0'') operation
     = Some (Inr (s1, \<lparr>buffer = rest, good = True\<rparr>, input2))"
    by blast
  show "load_meta_data fuel files operation s filePath
               = Some (Inl (runtime_error
               (''Error: Incorrect meta-data file format:             Simulator end flag is missing''
                @ [CHR 0x0A])))"
    unfolding load_meta_data_after_preamble [where files = files and filePath = filePath, OF f w0 r]
      rp option.case sum.case prod.case
    by (rule end_flag_missing [OF flag])
next
  fix tail
  assume f: "files filePath = Some (''Start Program Meta-Data Code:'' @ [CHR 0x0A] @ ''S(start)0;'' @ w0 @ tokens_text tokens @ rest)"
    and w0: "\<forall>c \<in> set w0. isspace c"
    and wf: "\<forall>(t, w) \<in> set tokens. well_formed_token t \<and> (\<forall>c \<in> set w. isspace c)"
    and fuel: "length tokens + 2 \<le> fuel"
    and c: "tokens = [] \<or> fst (last tokens) = ''A(end)0''"
    and rest: "rest \<noteq> []" "hd rest = CHR ''S''"
    and tl: "rest = ''S(end)0.'' @ tail"
    and e: "takeWhile (\<lambda>c. c \<noteq> CHR ''.'') (dropWhile isspace tail)
                   \<noteq> ''End Program Meta-Data Code''"
  have sp: "\<not> isspace (hd rest)"
    using rest(2) by (simp_all add: isspace_def)
  have r: "tokens_text tokens @ rest \<noteq> []" "\<not> isspace (hd (tokens_text tokens @ rest))"
    using rest(1) wf sp(1) well_formed_token_front
    by (cases tokens; auto simp: tokens_text_def)+
  from read_programs_complete [OF rest wf c fuel] obtain s1 input2 where
    rp: "read_programs fuel s \<lparr>buffer = tokens_text tokens @ rest, good = True\<rparr>
       (''Start Program Meta-Data Code:'' @ [CHR 0x0A] @ ''S(start)0'') operation
     = Some (Inr (s1, \<lparr>buffer = ''S(end)0.'' @ tail, good = True\<rparr>, input2))"
    unfolding tl by blast
  show "load_meta_data fuel files operation s filePath
                   = Some (Inl (runtime_error
               (''Error: Incorrect meta-data file format:             Meta-Data file does not end after simulator operations end''
                @ [CHR 0x0A])))"
    unfolding load_meta_data_after_preamble [where files = files and filePath = filePath, OF f w0 r]
      rp option.case sum.case prod.case after_end_flag
    using e by simp
next
  fix tail
  assume f: "files filePath = Some (''Start Program Meta-Data Code:'' @ [CHR 0x0A] @ ''S(start)0;'' @ w0 @ tokens_text tokens @ rest)"
    and w0: "\<forall>c \<in> set w0. isspace c"
    and wf: "\<forall>(t, w) \<in> set tokens. well_formed_token t \<and> (\<forall>c \<in> set w. isspace c)"
    and fuel: "length tokens + 2 \<le> fuel"
    and c: "tokens = [] \<or> fst (last tokens) = ''A(end)0''"
    and rest: "rest \<noteq> []" "hd rest = CHR ''S''"
    and tl: "rest = ''S(end)0.'' @ tail"
    and e: "takeWhile (\<lambda>c. c \<noteq> CHR ''.'') (dropWhile isspace tail)
                   = ''End Program Meta-Data Code''"
  have sp: "\<not> isspace (hd rest)"
    using rest(2) by (simp_all add: isspace_def)
  have r: "tokens_text tokens @ rest \<noteq> []" "\<not> isspace (hd (tokens_text tokens @ rest))"
    using rest(1) wf sp(1) well_formed_token_front
    by (cases tokens; auto simp: tokens_text_def)+
  have ne: "dropWhile isspace tail \<noteq> []"
  proof
    assume "dropWhile isspace tail = []"
    then have "takeWhile (\<lambda>c. c \<noteq> CHR ''.'') (dropWhile isspace tail) = []"
      by (simp only: takeWhile.simps)
    with e show False
      by simp
  qed
  from read_programs_complete [OF rest wf c fuel] obtain s1 input2 where
    rp: "read_programs fuel s \<lparr>buffer = tokens_text tokens @ rest, good = True\<rparr>
       (''Start Program Meta-Data Code:'' @ [CHR 0x0A] @ ''S(start)0'') operation
     = Some (Inr (s1, \<lparr>buffer = ''S(end)0.'' @ tail, good = True\<rparr>, input2))" and
    n: "length (programs s1)
         = length (programs s) + length [tw \<leftarrow> tokens. fst tw = ''A(end)0'']"
    unfolding tl by blast
  have "load_meta_data fuel files operation s filePath = Some (Inr s1)"
    unfolding load_meta_data_after_preamble [where files = files and filePath = filePath, OF f w0 r]
      rp option.case sum.case prod.case after_end_flag
    by (simp only: e ne) simp
  with n show "\<exists>s'. load_meta_data fuel files operation s filePath = Some (Inr s')
                    \<and> length (programs s')
                        = length (programs s) + length [tw \<leftarrow> tokens. fst tw = ''A(end)0'']"
    by blast
next
  assume l: "load_meta_data fuel files operation s filePath = Some (Inr s')"
  from load_meta_data_text [OF l] obtain contents body sp tail where
    t: "files filePath = Some contents"
       "contents = ''Start Program Meta-Data Code:'' @ [CHR 0x0A] @ ''S(start)0;'' @ body
          @ ''S(end)0.'' @ sp @ ''End Program Meta-Data Code'' @ tail"
       "\<forall>c \<in> set sp. isspace c" "tail = [] \<or> hd tail = CHR ''.''"
    by blast
  from load_meta_data_result [OF l] obtain new where
    n: "programs s' = programs s @ new" "\<forall>p \<in> set new. as_loaded p"
    by blast
  then have "\<forall>p \<in> set new. operations p \<noteq> [] \<and> last (operations p) = control ''end''"
    by (simp add: as_loaded_def)
  with t n(1) show "\<exists>contents body sp tail new.
          files filePath = Some contents
        \<and> contents = ''Start Program Meta-Data Code:'' @ [CHR 0x0A] @ ''S(start)0;'' @ body
            @ ''S(end)0.'' @ sp @ ''End Program Meta-Data Code'' @ tail
        \<and> (\<forall>c \<in> set sp. isspace c) \<and> (tail = [] \<or> hd tail = CHR ''.'')
        \<and> programs s' = programs s @ new
        \<and> (\<forall>p \<in> set new. operations p \<noteq> [] \<and> last (operations p) = control ''end'')"
    by blast
qed


theorem load_meta_data_format_checks_witness:
  "[''meta'' \<mapsto> meta_data ''A(start)0; A(end)0;''] ''other'' = None
   \<and> load_meta_data 4 [''meta'' \<mapsto> meta_data ''A(start)0; A(end)0;'']
        \<lparr>type = CHR ''x'', description = [], cycles = 7, cycleTime = 9\<rparr> example_simulator ''other''
       = Some (Inl (runtime_error (''Error: Unable to open file '' @ ''other'' @ [CHR 0x0A])))
   \<and> [''meta'' \<mapsto> ''A(start)0; A(end)0; S(end)0.''] ''meta'' = Some ''A(start)0; A(end)0; S(end)0.''
   \<and> takeWhile (\<lambda>c. c \<noteq> CHR '';'') ''A(start)0; A(end)0; S(end)0.''
       \<noteq> ''Start Program Meta-Data Code:'' @ [CHR 0x0A] @ ''S(start)0''
   \<and> load_meta_data 4 [''meta'' \<mapsto> ''A(start)0; A(end)0; S(end)0.'']
        \<lparr>type = CHR ''x'', description = [], cycles = 7, cycleTime = 9\<rparr> example_simulator ''meta''
       = Some (Inl (runtime_error
               (''Error: Incorrect meta-data file format:             Simulator start flag is missing''
                @ [CHR 0x0A])))
   \<and> meta_data ''A(start)0; P(run)x; A(end)0;''
       = ''Start Program Meta-Data Code:'' @ [CHR 0x0A] @ ''S(start)0;'' @ '' ''
         @ tokens_text [(''A(start)0'', '' '')]
         @ ''P(run)x'' @ ''; A(end)0; S(end)0.'' @ [CHR 0x0A] @ ''End Program Meta-Data Code.'' @ [CHR 0x0A]
   \<and> well_formed_token ''A(start)0'' \<and> isspace CHR '' ''
   \<and> length [(''A(start)0'', '' '')] + 2 \<le> (3::nat)
   \<and> hd (''; A(end)0; S(end)0.'' @ [CHR 0x0A] @ ''End Program Meta-Data Code.'' @ [CHR 0x0A]) = CHR '';''
   \<and> 2 \<le> length ''P(run)x'' \<and> CHR '';'' \<notin> set ''P(run)x''
   \<and> \<not> isspace (hd ''P(run)x'') \<and> hd ''P(run)x'' \<noteq> CHR ''S''
   \<and> stoi (drop (nat (find_char ''P(run)x'' CHR '')'' + 1)) ''P(run)x'') = Inl invalid_argument
   \<and> load_meta_data 3 [''meta'' \<mapsto> meta_data ''A(start)0; P(run)x; A(end)0;'']
        \<lparr>type = CHR ''x'', description = [], cycles = 7, cycleTime = 9\<rparr> example_simulator ''meta''
       = Some (Inl invalid_argument)
   \<and> well_formed_token ''A(end)0''
   \<and> fst (last [(''A(start)0'', '' ''), (''A(end)0'', '' '')]) = ''A(end)0''
   \<and> hd ''S(stop)0.'' = CHR ''S''
   \<and> takeWhile (\<lambda>c. c \<noteq> CHR ''.'') ''S(stop)0.'' \<noteq> ''S(end)0''
   \<and> load_meta_data 4
        [''meta'' \<mapsto> ''Start Program Meta-Data Code:'' @ [CHR 0x0A] @ ''S(start)0;'' @ '' ''
           @ tokens_text [(''A(start)0'', '' ''), (''A(end)0'', '' '')] @ ''S(stop)0.'']
        \<lparr>type = CHR ''x'', description = [], cycles = 7, cycleTime = 9\<rparr> example_simulator ''meta''
       = Some (Inl (runtime_error
               (''Error: Incorrect meta-data file format:             Simulator end flag is missing''
                @ [CHR 0x0A])))
   \<and> takeWhile (\<lambda>c. c \<noteq> CHR ''.'') (dropWhile isspace (''End of file''))
       \<noteq> ''End Program Meta-Data Code''
   \<and> load_meta_data 4
        [''meta'' \<mapsto> ''Start Program Meta-Data Code:'' @ [CHR 0x0A] @ ''S(start)0;'' @ '' ''
           @ tokens_text [(''A(start)0'', '' ''), (''A(end)0'', '' '')] @ ''S(end)0.'' @ ''End of file'']
        \<lparr>type = CHR ''x'', description = [], cycles = 7, cycleTime = 9\<rparr> example_simulator ''meta''
       = Some (Inl (runtime_error
               (''Error: Incorrect meta-data file format:             Meta-Data file does not end after simulator operations end''
                @ [CHR 0x0A])))
   \<and> meta_data ''P(run)3; A(end)0;''
       = ''Start Program Meta-Data Code:'' @ [CHR 0x0A] @ ''S(start)0;'' @ '' ''
         @ tokens_text [(''P(run)3'', '' ''), (''A(end)0'', '' '')]
         @ ''S(end)0.'' @ [CHR 0x0A] @ ''End Program Meta-Data Code.'' @ [CHR 0x0A]
   \<and> well_formed_token ''P(run)3''
   \<and> takeWhile (\<lambda>c. c \<noteq> CHR ''.'')
         (dropWhile isspace ([CHR 0x0A] @ ''End Program Meta-Data Code.'' @ [CHR 0x0A]))
       = ''End Program Meta-Data Code''
   \<and> (\<exists>s'. load_meta_data 4 [''meta'' \<mapsto> meta_data ''P(run)3; A(end)0;'']
          \<lparr>type = CHR ''x'', description = [], cycles = 7, cycleTime = 9\<rparr> example_simulator ''meta''
         = Some (Inr s')
       \<and> length (programs s') = 1)
   \<and> load_meta_data 5 [''meta'' \<mapsto> meta_data ''A(start)0; P(run)3; I(hard drive)2; A(end)0;'']
     \<lparr>type = CHR ''x'', description = [], cycles = 7, cycleTime = 9\<rparr> example_simulator ''meta''
     = Some (Inr (example_simulator\<lparr>programs := [scenario_program]\<rparr>))
   \<and> (\<exists>body sp tail.
         meta_data ''A(start)0; P(run)3; I(hard drive)2; A(end)0;''
         = ''Start Program Meta-Data Code:'' @ [CHR 0x0A] @ ''S(start)0;'' @ body
            @ ''S(end)0.'' @ sp @ ''End Program Meta-Data Code'' @ tail)"
proof -
  let ?op = "\<lparr>type = CHR ''x'', description = [], cycles = 7, cycleTime = 9\<rparr>"
  let ?f1 = "[''meta'' \<mapsto> meta_data ''A(start)0; A(end)0;'']"
  let ?f2 = "[''meta'' \<mapsto> ''A(start)0; A(end)0; S(end)0.'']"
  let ?f3 = "[''meta'' \<mapsto> meta_data ''A(start)0; P(run)x; A(end)0;'']"
  let ?tail3 = "''; A(end)0; S(end)0.'' @ [CHR 0x0A] @ ''End Program Meta-Data Code.'' @ [CHR 0x0A]"
  let ?two = "[(''A(start)0'', '' ''), (''A(end)0'', '' '')]"
  let ?f4 = "[''meta'' \<mapsto> ''Start Program Meta-Data Code:'' @ [CHR 0x0A] @ ''S(start)0;'' @ '' ''
           @ tokens_text ?two @ ''S(stop)0.'']"
  let ?f5 = "[''meta'' \<mapsto> ''Start Program Meta-Data Code:'' @ [CHR 0x0A] @ ''S(start)0;'' @ '' ''
           @ tokens_text ?two @ ''S(end)0.'' @ ''End of file'']"
  let ?f6 = "[''meta'' \<mapsto> meta_data ''P(run)3; A(end)0;'']"
  let ?six = "[(''P(run)3'', '' ''), (''A(end)0'', '' '')]"
  let ?tail6 = "[CHR 0x0A] @ ''End Program Meta-Data Code.'' @ [CHR 0x0A]"
  let ?f7 = "[''meta'' \<mapsto> meta_data ''A(start)0; P(run)3; I(hard drive)2; A(end)0;'']"
  have a1: "?f1 ''other'' = None"
    by simp
  note a = load_meta_data_format_checks
    [where files = ?f1 and filePath = "''other''" and fuel = 4 and operation = ?op
       and s = example_simulator, THEN conjunct1, THEN mp, OF a1]
  have b1: "?f2 ''meta'' = Some ''A(start)0; A(end)0; S(end)0.''"
    by simp
  have b2: "takeWhile (\<lambda>c. c \<noteq> CHR '';'') ''A(start)0; A(end)0; S(end)0.''
       \<noteq> ''Start Program Meta-Data Code:'' @ [CHR 0x0A] @ ''S(start)0''"
    by simp
  note b = load_meta_data_format_checks
    [where files = ?f2 and filePath = "''meta''" and fuel = 4 and operation = ?op
       and s = example_simulator,
     THEN conjunct2, THEN conjunct1, THEN mp, THEN mp, OF b1 b2]
  have sp: "isspace CHR '' ''"
    by (simp add: isspace_def)
  then have w0: "\<forall>c \<in> set '' ''. isspace c"
    by simp
  have wa: "well_formed_token ''A(start)0''"
    by code_simp
  have we: "well_formed_token ''A(end)0''"
    by code_simp
  have wp: "well_formed_token ''P(run)3''"
    by code_simp
  have c0: "meta_data ''A(start)0; P(run)x; A(end)0;''
       = ''Start Program Meta-Data Code:'' @ [CHR 0x0A] @ ''S(start)0;'' @ '' ''
         @ tokens_text [(''A(start)0'', '' '')] @ ''P(run)x'' @ ?tail3"
    by (simp add: meta_data_def tokens_text_def)
  have c1: "?f3 ''meta'' = Some (''Start Program Meta-Data Code:'' @ [CHR 0x0A] @ ''S(start)0;'' @ '' ''
         @ tokens_text [(''A(start)0'', '' '')] @ ''P(run)x'' @ ?tail3)"
    using c0 by simp
  have c2: "\<forall>(t, w) \<in> set [(''A(start)0'', '' '')].
              well_formed_token t \<and> (\<forall>c \<in> set w. isspace c)"
    using wa sp by simp
  have c3: "length [(''A(start)0'', '' '')] + 2 \<le> (3::nat)"
    by simp
  have c4: "?tail3 = [] \<or> hd ?tail3 = CHR '';''"
    by simp
  have c4': "hd ?tail3 = CHR '';''"
    by simp
  have c5: "2 \<le> length ''P(run)x''" "CHR '';'' \<notin> set ''P(run)x''"
    "\<not> isspace (hd ''P(run)x'')" "hd ''P(run)x'' \<noteq> CHR ''S''"
    by (simp_all add: isspace_def)
  have c6: "stoi (drop (nat (find_char ''P(run)x'' CHR '')'' + 1)) ''P(run)x'') = Inl invalid_argument"
    by code_simp
  note c = load_meta_data_format_checks
    [where files = ?f3 and filePath = "''meta''" and fuel = 3 and operation = ?op
       and s = example_simulator and ?w0.0 = "'' ''" and tokens = "[(''A(start)0'', '' '')]"
       and rest = "''P(run)x'' @ ?tail3",
     THEN conjunct2, THEN conjunct2, THEN conjunct1, THEN mp, THEN mp, THEN mp, THEN mp,
     OF c1 w0 c2 c3, THEN conjunct1, rule_format,
     where token = "''P(run)x''" and tail = ?tail3 and e = invalid_argument,
     OF refl c4 c5 c6]
  have d1: "?f4 ''meta'' = Some (''Start Program Meta-Data Code:'' @ [CHR 0x0A] @ ''S(start)0;'' @ '' ''
           @ tokens_text ?two @ ''S(stop)0.'')"
    by simp
  have d2: "\<forall>(t, w) \<in> set ?two. well_formed_token t \<and> (\<forall>c \<in> set w. isspace c)"
    using wa we sp by simp
  have d3: "length ?two + 2 \<le> (4::nat)"
    by simp
  have d4': "fst (last ?two) = ''A(end)0''"
    by simp
  then have d4: "?two = [] \<or> fst (last ?two) = ''A(end)0''"
    by simp
  have d5: "''S(stop)0.'' \<noteq> []" "hd ''S(stop)0.'' = CHR ''S''"
    by simp_all
  have d6: "takeWhile (\<lambda>c. c \<noteq> CHR ''.'') ''S(stop)0.'' \<noteq> ''S(end)0''"
    by simp
  note d = load_meta_data_format_checks
    [where files = ?f4 and filePath = "''meta''" and fuel = 4 and operation = ?op
       and s = example_simulator and ?w0.0 = "'' ''" and tokens = ?two
       and rest = "''S(stop)0.''",
     THEN conjunct2, THEN conjunct2, THEN conjunct1, THEN mp, THEN mp, THEN mp, THEN mp,
     OF d1 w0 d2 d3, THEN conjunct2, THEN mp, THEN mp, THEN mp, OF d4 d5,
     THEN conjunct1, THEN mp, OF d6]
  have e1: "?f5 ''meta'' = Some (''Start Program Meta-Data Code:'' @ [CHR 0x0A] @ ''S(start)0;'' @ '' ''
           @ tokens_text ?two @ ''S(end)0.'' @ ''End of file'')"
    by simp
  have e5: "''S(end)0.'' @ ''End of file'' \<noteq> []" "hd (''S(end)0.'' @ ''End of file'') = CHR ''S''"
    by simp_all
  have e6: "takeWhile (\<lambda>c. c \<noteq> CHR ''.'') (dropWhile isspace (''End of file''))
       \<noteq> ''End Program Meta-Data Code''"
    by (simp add: isspace_def)
  note e = load_meta_data_format_checks
    [where files = ?f5 and filePath = "''meta''" and fuel = 4 and operation = ?op
       and s = example_simulator and ?w0.0 = "'' ''" and tokens = ?two
       and rest = "''S(end)0.'' @ ''End of file''",
     THEN conjunct2, THEN conjunct2, THEN conjunct1, THEN mp, THEN mp, THEN mp, THEN mp,
     OF e1 w0 d2 d3, THEN conjunct2, THEN mp, THEN mp, THEN mp, OF d4 e5,
     THEN conjunct2, THEN spec, THEN mp, OF refl, THEN conjunct1, THEN mp, OF e6]
  have f0: "meta_data ''P(run)3; A(end)0;''
       = ''Start Program Meta-Data Code:'' @ [CHR 0x0A] @ ''S(start)0;'' @ '' ''
         @ tokens_text ?six @ ''S(end)0.'' @ ?tail6"
    by (simp add: meta_data_def tokens_text_def)
  have f1: "?f6 ''meta'' = Some (''Start Program Meta-Data Code:'' @ [CHR 0x0A] @ ''S(start)0;'' @ '' ''
         @ tokens_text ?six @ ''S(end)0.'' @ ?tail6)"
    using f0 by simp
  have f2: "\<forall>(t, w) \<in> set ?six. well_formed_token t \<and> (\<forall>c \<in> set w. isspace c)"
    using wp we sp by simp
  have f3: "length ?six + 2 \<le> (4::nat)"
    by simp
  have f4: "?six = [] \<or> fst (last ?six) = ''A(end)0''"
    by simp
  have f5: "''S(end)0.'' @ ?tail6 \<noteq> []" "hd (''S(end)0.'' @ ?tail6) = CHR ''S''"
    by simp_all
  have f6: "takeWhile (\<lambda>c. c \<noteq> CHR ''.'') (dropWhile isspace ?tail6)
       = ''End Program Meta-Data Code''"
    by (simp add: isspace_def)
  from load_meta_data_format_checks
    [where files = ?f6 and filePath = "''meta''" and fuel = 4 and operation = ?op
       and s = example_simulator and ?w0.0 = "'' ''" and tokens = ?six
       and rest = "''S(end)0.'' @ ?tail6",
     THEN conjunct2, THEN conjunct2, THEN conjunct1, THEN mp, THEN mp, THEN mp, THEN mp,
     OF f1 w0 f2 f3, THEN conjunct2, THEN mp, THEN mp, THEN mp, OF f4 f5,
     THEN conjunct2, THEN spec, THEN mp, OF refl, THEN conjunct2, THEN mp, OF f6]
  have f: "\<exists>s'. load_meta_data 4 ?f6 ?op example_simulator ''meta'' = Some (Inr s')
       \<and> length (programs s') = 1"
    by (simp add: example_simulator_def)
  from load_meta_data_format_checks
    [where files = ?f7 and filePath = "''meta''" and fuel = 5 and operation = ?op
       and s = example_simulator and s' = "example_simulator\<lparr>programs := [scenario_program]\<rparr>",
     THEN conjunct2, THEN conjunct2, THEN conjunct2, THEN mp, OF scenario_load]
  have g: "\<exists>body sp tail.
         meta_data ''A(start)0; P(run)3; I(hard drive)2; A(end)0;''
         = ''Start Program Meta-Data Code:'' @ [CHR 0x0A] @ ''S(start)0;'' @ body
            @ ''S(end)0.'' @ sp @ ''End Program Meta-Data Code'' @ tail"
    by auto
  show ?thesis
    by (intro conjI)
      (rule a1 a b1 b2 b c0 wa sp c3 c4' c5 c6 c we d4' d5 d6 d e6 e f0 wp f6 f scenario_load g)+
qed

end
